theory Spec2Isabelle
  imports Main "HOL-Library.Sublist"
begin

section \<open>JavaScript strings\<close>

text \<open>
  A JavaScript string is modelled as a \<open>string\<close> (a list of characters), one
  character for each code unit, so \<open>length\<close> is the source's \<open>.length\<close> and
  \<open>@\<close> is its \<open>+\<close>. The regular expressions of the source are translated by
  hand into the functions below; each translation names the expression it stands for.
\<close>

definition newline :: char where
  "newline = CHR 0x0A"

text \<open>\<open>s.split("\n")\<close>: the pieces between line feeds; never an empty array.\<close>

fun splitLines :: "string \<Rightarrow> string list" where
  "splitLines [] = [[]]"
| "splitLines (c # cs) =
     (if c = newline then [] # splitLines cs
      else (case splitLines cs of
              [] \<Rightarrow> [[c]]
            | l # ls \<Rightarrow> (c # l) # ls))"

text \<open>\<open>s.startsWith(p)\<close>.\<close>

definition startsWith :: "string \<Rightarrow> string \<Rightarrow> bool" where
  "startsWith s p = (take (length p) s = p)"

text \<open>The class \<open>\d\<close>.\<close>

definition isDigit :: "char \<Rightarrow> bool" where
  "isDigit c = (c \<in> set ''0123456789'')"

text \<open>\<open>parseInt(ds, 10)\<close> on a non-empty run of decimal digits.\<close>

definition digitVal :: "char \<Rightarrow> nat" where
  "digitVal c = of_char c - 48"

definition parseInt :: "string \<Rightarrow> nat" where
  "parseInt ds = foldl (\<lambda>a c. 10 * a + digitVal c) 0 ds"

text \<open>A literal at the start of the text: the rest after it, if it is there.\<close>

definition expect :: "string \<Rightarrow> string \<Rightarrow> string option" where
  "expect p s = (if startsWith s p then Some (drop (length p) s) else None)"

text \<open>\<open>(\d+)\<close>: the longest non-empty run of digits and the rest.\<close>

definition digits1 :: "string \<Rightarrow> (string \<times> string) option" where
  "digits1 s =
     (if takeWhile isDigit s = [] then None
      else Some (takeWhile isDigit s, dropWhile isDigit s))"

text \<open>\<open>(?:,\d+)?\<close>: the rest after an optional comma and digits.\<close>

definition optCommaDigits :: "string \<Rightarrow> string" where
  "optCommaDigits s =
     (case s of
        [] \<Rightarrow> s
      | c # r \<Rightarrow>
          (if c = CHR '','' then (case digits1 r of None \<Rightarrow> s | Some (_, r') \<Rightarrow> r')
           else s))"

text \<open>
  The white space of \<open>\s\<close> and of \<open>trim\<close>, among the characters the model has: tab,
  line feed, vertical tab, form feed, carriage return, space and no-break space.
\<close>

definition isSpace :: "char \<Rightarrow> bool" where
  "isSpace c = (c \<in> set [CHR 0x09, CHR 0x0A, CHR 0x0B, CHR 0x0C, CHR 0x0D, CHR 0x20, CHR 0xA0])"

text \<open>\<open>s.trim()\<close>.\<close>

definition trim :: "string \<Rightarrow> string" where
  "trim s = rev (dropWhile isSpace (rev (dropWhile isSpace s)))"

text \<open>The class \<open>\w\<close>, and the assertion \<open>\b\<close> between the character before (if any) and the rest.\<close>

definition isWordChar :: "char \<Rightarrow> bool" where
  "isWordChar c =
     (c \<in> set ''ABCDEFGHIJKLMNOPQRSTUVWXYZabcdefghijklmnopqrstuvwxyz0123456789_'')"

definition wordBefore :: "char option \<Rightarrow> bool" where
  "wordBefore prev = (case prev of None \<Rightarrow> False | Some c \<Rightarrow> isWordChar c)"

definition wordAfter :: "string \<Rightarrow> bool" where
  "wordAfter s = (case s of [] \<Rightarrow> False | c # _ \<Rightarrow> isWordChar c)"

definition boundary :: "char option \<Rightarrow> string \<Rightarrow> bool" where
  "boundary prev s = (wordBefore prev \<noteq> wordAfter s)"

text \<open>
  Matching under the flag \<open>i\<close>: letters of the ASCII range are compared without case;
  no other character of the model is equal to an ASCII letter under the flag.
\<close>

definition lowerCase :: "char \<Rightarrow> char" where
  "lowerCase c =
     (case map_of (zip ''ABCDEFGHIJKLMNOPQRSTUVWXYZ'' ''abcdefghijklmnopqrstuvwxyz'') c of
        None \<Rightarrow> c
      | Some l \<Rightarrow> l)"

text \<open>A literal, written in lower case, at the start of the text under the flag \<open>i\<close>.\<close>

definition expectCI :: "string \<Rightarrow> string \<Rightarrow> string option" where
  "expectCI p s =
     (if map lowerCase (take (length p) s) = p then Some (drop (length p) s) else None)"

text \<open>
  \<open>re.test(s)\<close> for an expression without the flag \<open>g\<close>: the expression matches at some
  position. A matcher is given the character before the position and the text from it.
\<close>

fun matchesSomewhere :: "(char option \<Rightarrow> string \<Rightarrow> bool) \<Rightarrow> char option \<Rightarrow> string \<Rightarrow> bool" where
  "matchesSomewhere m prev [] = m prev []"
| "matchesSomewhere m prev (c # cs) = (m prev (c # cs) \<or> matchesSomewhere m (Some c) cs)"

definition test :: "(char option \<Rightarrow> string \<Rightarrow> bool) \<Rightarrow> string \<Rightarrow> bool" where
  "test m s = matchesSomewhere m None s"

text \<open>\<open>s.includes(p)\<close>.\<close>

fun includesStr :: "string \<Rightarrow> string \<Rightarrow> bool" where
  "includesStr [] p = (p = [])"
| "includesStr (c # cs) p = (startsWith (c # cs) p \<or> includesStr cs p)"

text \<open>\<open>s.indexOf(p)\<close> and \<open>s.lastIndexOf(p)\<close>; \<open>None\<close> is the source's \<open>-1\<close>.\<close>

fun indexOf :: "string \<Rightarrow> string \<Rightarrow> nat option" where
  "indexOf p [] = (if p = [] then Some 0 else None)"
| "indexOf p (c # cs) =
     (if startsWith (c # cs) p then Some 0 else map_option Suc (indexOf p cs))"

definition lastIndexOf :: "string \<Rightarrow> string \<Rightarrow> nat option" where
  "lastIndexOf p s =
     (case indexOf (rev p) (rev s) of
        None \<Rightarrow> None
      | Some k \<Rightarrow> Some (length s - length p - k))"

text \<open>\<open>s.slice(a, b)\<close> for \<open>0 \<le> a\<close> and \<open>0 \<le> b\<close>.\<close>

definition slice :: "string \<Rightarrow> nat \<Rightarrow> nat \<Rightarrow> string" where
  "slice s a b = take (b - a) (drop a s)"

section \<open>Diff Position Mapper\<close>

text \<open>
  The hunk header test of \<open>diffPositionForLine\<close>,
  \<open>/^@@ -\d+(?:,\d+)? \+(\d+)(?:,(\d+))? @@/\<close>: the digits of the first group when the
  line matches. Every run of digits is followed by a character that is no digit, so the
  greedy choices are the only ones that can match and no backtracking is modelled.
\<close>

definition hunkHeader :: "string \<Rightarrow> string option" where
  "hunkHeader L =
     (case expect ''@@ -'' L of
        None \<Rightarrow> None
      | Some r0 \<Rightarrow>
     (case digits1 r0 of
        None \<Rightarrow> None
      | Some (_, r1) \<Rightarrow>
     (case expect '' +'' (optCommaDigits r1) of
        None \<Rightarrow> None
      | Some r3 \<Rightarrow>
     (case digits1 r3 of
        None \<Rightarrow> None
      | Some (d, r4) \<Rightarrow>
     (case expect '' @@'' (optCommaDigits r4) of
        None \<Rightarrow> None
      | Some _ \<Rightarrow> Some d)))))"

text \<open>
  The loop of \<open>diffPositionForLine\<close> over the remaining lines, with the variables
  \<open>position\<close> and \<open>newLine\<close> as arguments; \<open>None\<close> is the source's \<open>null\<close>.
\<close>

fun diffLoop :: "nat \<Rightarrow> string list \<Rightarrow> nat \<Rightarrow> nat \<Rightarrow> nat option" where
  "diffLoop targetNewLine [] position newLine = None"
| "diffLoop targetNewLine (L # ls) position newLine =
     (case hunkHeader L of
        Some d \<Rightarrow> diffLoop targetNewLine ls (position + 1) (parseInt d)
      | None \<Rightarrow>
          (if startsWith L ''+'' then
             (if newLine = targetNewLine then Some (position + 1)
              else diffLoop targetNewLine ls (position + 1) (newLine + 1))
           else if startsWith L ''-'' then
             diffLoop targetNewLine ls (position + 1) newLine
           else
             (if newLine = targetNewLine then Some (position + 1)
              else diffLoop targetNewLine ls (position + 1) (newLine + 1))))"

definition diffPositionForLine :: "string \<Rightarrow> nat \<Rightarrow> nat option" where
  "diffPositionForLine unifiedPatch targetNewLine =
     diffLoop targetNewLine (splitLines unifiedPatch) 0 0"

text \<open>
  The walk as the specification describes it. \<open>advance\<close> is the effect of one line on
  the running new-file line number: a hunk header sets it, a removed line leaves it, any
  other line adds one. \<open>lineNumbers n ls\<close> lists the running number on entry to each
  line. \<open>positionOf\<close> is the 1-based index, counted over all lines, of the first line
  that is neither a header nor removed and whose running number is the target.
\<close>

definition advance :: "nat \<Rightarrow> string \<Rightarrow> nat" where
  "advance n L =
     (case hunkHeader L of
        Some d \<Rightarrow> parseInt d
      | None \<Rightarrow> (if startsWith L ''-'' then n else n + 1))"

fun lineNumbers :: "nat \<Rightarrow> string list \<Rightarrow> nat list" where
  "lineNumbers n [] = []"
| "lineNumbers n (L # ls) = n # lineNumbers (advance n L) ls"

definition hit :: "nat \<Rightarrow> string \<times> nat \<Rightarrow> bool" where
  "hit t p = (hunkHeader (fst p) = None \<and> \<not> startsWith (fst p) ''-'' \<and> snd p = t)"

fun firstIndex :: "('a \<Rightarrow> bool) \<Rightarrow> 'a list \<Rightarrow> nat option" where
  "firstIndex P [] = None"
| "firstIndex P (x # xs) =
     (if P x then Some 0 else map_option Suc (firstIndex P xs))"

definition positionOf :: "string \<Rightarrow> nat \<Rightarrow> nat option" where
  "positionOf diffText t =
     map_option Suc
       (firstIndex (hit t)
          (zip (splitLines diffText) (lineNumbers 0 (splitLines diffText))))"

text \<open>
  The diff of the specification's example, and a diff whose new-file line 2 is only ever
  the running number of a removed line.
\<close>

definition exampleDiff :: string where
  "exampleDiff =
     ''@@ -1,3 +1,4 @@'' @ [newline] @ '' context'' @ [newline] @ ''+added1'' @ [newline] @
     ''+added2'' @ [newline] @ '' context2''"

definition removalDiff :: string where
  "removalDiff = ''@@ -1,2 +1,1 @@'' @ [newline] @ '' keep'' @ [newline] @ ''-gone''"

section \<open>Chunker\<close>

text \<open>
  A changed file of a pull request as the listing returns it: its name and its patch,
  absent for a binary or oversized file.
\<close>

record prFile =
  filename :: string
  patch :: "string option"

definition PR_MAX_BATCH_CHARS :: nat where
  "PR_MAX_BATCH_CHARS = 80000"

definition MAX_BATCH_CHARS :: nat where
  "MAX_BATCH_CHARS = 100000"

definition MAX_FILE_CHARS :: nat where
  "MAX_FILE_CHARS = 40000"

definition makeUnifiedChunk :: "string \<Rightarrow> string \<Rightarrow> string" where
  "makeUnifiedChunk name p =
     ''--- a/'' @ name @ [newline] @ ''+++ b/'' @ name @ [newline] @ p @ [newline, newline]"

text \<open>
  The loop of \<open>batchPRFiles\<close> over the remaining files, with \<open>buf\<close> and \<open>batches\<close>
  as arguments and the cap as a parameter; the source fixes the cap to
  \<open>PR_MAX_BATCH_CHARS\<close>. \<open>!f.patch\<close> holds of an absent and of an empty patch.
\<close>

fun batchPRLoop :: "nat \<Rightarrow> prFile list \<Rightarrow> string \<Rightarrow> string list \<Rightarrow> string list" where
  "batchPRLoop cap [] buf batches = (if buf \<noteq> [] then batches @ [buf] else batches)"
| "batchPRLoop cap (f # files) buf batches =
     (case patch f of
        None \<Rightarrow> batchPRLoop cap files buf batches
      | Some p \<Rightarrow>
          (if p = [] then batchPRLoop cap files buf batches
           else if length buf + length (makeUnifiedChunk (filename f) p) > cap then
             batchPRLoop cap files (makeUnifiedChunk (filename f) p)
               (if buf \<noteq> [] then batches @ [buf] else batches)
           else batchPRLoop cap files (buf @ makeUnifiedChunk (filename f) p) batches))"

definition batchPRFilesCap :: "nat \<Rightarrow> prFile list \<Rightarrow> string list" where
  "batchPRFilesCap cap files = batchPRLoop cap files [] []"

definition batchPRFiles :: "prFile list \<Rightarrow> string list" where
  "batchPRFiles files = batchPRFilesCap PR_MAX_BATCH_CHARS files"

text \<open>
  \<open>sliceFileContent\<close>. The file system is the function \<open>readFile\<close> from a path to
  the file's text, \<open>None\<close> where \<open>readFileSync\<close> throws; \<open>rel\<close> is
  \<open>path.relative(process.cwd(), p)\<close>.
\<close>

definition sliceFileContent ::
  "(string \<Rightarrow> string option) \<Rightarrow> (string \<Rightarrow> string) \<Rightarrow> string \<Rightarrow> string option" where
  "sliceFileContent readFile rel p =
     (case readFile p of
        None \<Rightarrow> None
      | Some src \<Rightarrow>
          (if trim src = [] then None
           else Some ([newline] @ ''// ===== FILE: '' @ rel p @ '' ====='' @ [newline] @
                  (if length src > MAX_FILE_CHARS
                   then take MAX_FILE_CHARS src @ [newline] @ ''... [truncated]''
                   else src))))"

text \<open>The loop of \<open>batchesFromFiles\<close>, with the cap as a parameter.\<close>

fun batchesLoop ::
  "(string \<Rightarrow> string option) \<Rightarrow> (string \<Rightarrow> string) \<Rightarrow> nat \<Rightarrow> string list \<Rightarrow> string \<Rightarrow>
     string list \<Rightarrow> string list" where
  "batchesLoop readFile rel cap [] buf batches =
     (if buf \<noteq> [] then batches @ [buf] else batches)"
| "batchesLoop readFile rel cap (f # files) buf batches =
     (case sliceFileContent readFile rel f of
        None \<Rightarrow> batchesLoop readFile rel cap files buf batches
      | Some part \<Rightarrow>
          (if part = [] then batchesLoop readFile rel cap files buf batches
           else if length buf + length part > cap then
             batchesLoop readFile rel cap files part
               (if buf \<noteq> [] then batches @ [buf] else batches)
           else batchesLoop readFile rel cap files (buf @ part) batches))"

definition batchesFromFilesCap ::
  "(string \<Rightarrow> string option) \<Rightarrow> (string \<Rightarrow> string) \<Rightarrow> nat \<Rightarrow> string list \<Rightarrow> string list" where
  "batchesFromFilesCap readFile rel cap files = batchesLoop readFile rel cap files [] []"

definition batchesFromFiles ::
  "(string \<Rightarrow> string option) \<Rightarrow> (string \<Rightarrow> string) \<Rightarrow> string list \<Rightarrow> string list" where
  "batchesFromFiles readFile rel files = batchesFromFilesCap readFile rel MAX_BATCH_CHARS files"

text \<open>
  The formatted contents of the usable units, in input order: the chunks of the files
  that have a patch, and the slices of the files that can be read and are not blank.
\<close>

definition prChunk :: "prFile \<Rightarrow> string option" where
  "prChunk f =
     (case patch f of
        None \<Rightarrow> None
      | Some p \<Rightarrow> (if p = [] then None else Some (makeUnifiedChunk (filename f) p)))"

definition prChunks :: "prFile list \<Rightarrow> string list" where
  "prChunks files = List.map_filter prChunk files"

definition fileParts ::
  "(string \<Rightarrow> string option) \<Rightarrow> (string \<Rightarrow> string) \<Rightarrow> string list \<Rightarrow> string list" where
  "fileParts readFile rel files = List.map_filter (sliceFileContent readFile rel) files"

text \<open>
  Both functions have one shape: \<open>chunkLoop\<close> is that loop over the formatted units.
  \<open>groupLoop\<close> is the same loop keeping the units of the buffer and of every batch
  apart, so that a batch can be read as the list of the units it is made of.
\<close>

fun chunkLoop :: "nat \<Rightarrow> string list \<Rightarrow> string \<Rightarrow> string list \<Rightarrow> string list" where
  "chunkLoop cap [] buf batches = (if buf \<noteq> [] then batches @ [buf] else batches)"
| "chunkLoop cap (part # parts) buf batches =
     (if length buf + length part > cap then
        chunkLoop cap parts part (if buf \<noteq> [] then batches @ [buf] else batches)
      else chunkLoop cap parts (buf @ part) batches)"

fun groupLoop ::
  "nat \<Rightarrow> string list \<Rightarrow> string list \<Rightarrow> string list list \<Rightarrow> string list list" where
  "groupLoop cap [] cur groups = (if cur \<noteq> [] then groups @ [cur] else groups)"
| "groupLoop cap (part # parts) cur groups =
     (if length (concat cur) + length part > cap then
        groupLoop cap parts [part] (if cur \<noteq> [] then groups @ [cur] else groups)
      else groupLoop cap parts (cur @ [part]) groups)"

text \<open>
  A batch is within the cap, or it is one unit alone; and a list of batches is a
  partition of the units when its groups of whole units, taken in order, are the units.
\<close>

definition fits :: "nat \<Rightarrow> string list \<Rightarrow> bool" where
  "fits cap g = (g \<noteq> [] \<and> (length (concat g) \<le> cap \<or> length g = 1))"

definition partitions :: "nat \<Rightarrow> string list \<Rightarrow> string list \<Rightarrow> string list list \<Rightarrow> bool" where
  "partitions cap units batches groups =
     (concat groups = units \<and> map concat groups = batches \<and> list_all (fits cap) groups)"

text \<open>Three changed files, the second one binary, and a small file system.\<close>

definition exampleFiles :: "prFile list" where
  "exampleFiles =
     [\<lparr>filename = ''a.js'', patch = Some ''+x''\<rparr>,
      \<lparr>filename = ''b.png'', patch = None\<rparr>,
      \<lparr>filename = ''c.js'', patch = Some ''+a long line of text''\<rparr>]"

definition exampleDisk :: "string \<Rightarrow> string option" where
  "exampleDisk p =
     (if p = ''x.js'' then Some ''let x = 1;''
      else if p = ''blank.js'' then Some ''  ''
      else if p = ''y.js'' then Some ''let y = 2;''
      else None)"

section \<open>Response Parser\<close>

text \<open>
  \<open>JSON.parse\<close> is a parameter: a function from a text to \<open>SyntaxError\<close>, when the call
  throws, or to the value it returns. A value is \<open>None\<close> for the source's \<open>null\<close> and
  \<open>Some v\<close> otherwise. The argument of \<open>extractJsonFromText\<close> is a string or something
  else.
\<close>

datatype 'j parsed = SyntaxError | Parsed "'j option"

datatype jsArg = NotAString | Str string

text \<open>
  \<open>/```(?:json)?\s*([\s\S]*?)```/i.exec(s)\<close>: the first group of the match, if there is
  one. The match starts at the first fence. The label and the white space hold no
  backtick, so the group ends at the first fence after them; and when no fence follows
  the first one, no later start can match either.
\<close>

definition fence :: "string \<Rightarrow> string option" where
  "fence s =
     (case indexOf ''```'' s of
        None \<Rightarrow> None
      | Some i \<Rightarrow>
          (let r = drop (i + 3) s;
               r1 = (case expectCI ''json'' r of None \<Rightarrow> r | Some x \<Rightarrow> x);
               r2 = dropWhile isSpace r1
           in (case indexOf ''```'' r2 of
                 None \<Rightarrow> None
               | Some j \<Rightarrow> Some (take j r2))))"

text \<open>The text between the first \<open>{\<close> and the last \<open>}\<close>, when both are there in this order.\<close>

definition braces :: "string \<Rightarrow> string option" where
  "braces s =
     (case indexOf ''{'' s of
        None \<Rightarrow> None
      | Some firstAt \<Rightarrow>
          (case lastIndexOf ''}'' s of
             None \<Rightarrow> None
           | Some lastAt \<Rightarrow>
               (if lastAt > firstAt then Some (slice s firstAt (lastAt + 1)) else None)))"

text \<open>
  \<open>extractJsonFromText\<close>. Every call of \<open>JSON.parse\<close> stands in a \<open>try\<close> with an empty
  \<open>catch\<close>: on \<open>SyntaxError\<close> the function goes on to the next attempt.
\<close>

definition extractJsonFromText :: "(string \<Rightarrow> 'j parsed) \<Rightarrow> jsArg \<Rightarrow> 'j option" where
  "extractJsonFromText parse s =
     (case s of
        NotAString \<Rightarrow> None
      | Str t \<Rightarrow>
          (if t = [] then None
           else (case parse t of
                   Parsed v \<Rightarrow> v
                 | SyntaxError \<Rightarrow>
                     (case (case fence t of
                              None \<Rightarrow> SyntaxError
                            | Some inner \<Rightarrow> parse (trim inner)) of
                        Parsed v \<Rightarrow> v
                      | SyntaxError \<Rightarrow>
                          (case braces t of
                             None \<Rightarrow> None
                           | Some candidate \<Rightarrow>
                               (case parse candidate of
                                  Parsed v \<Rightarrow> v
                                | SyntaxError \<Rightarrow> None))))))"

text \<open>
  The specification's reading: three candidate texts in order (the whole text, the
  trimmed interior of the first fenced block, the text from the first \<open>{\<close> to the last
  \<open>}\<close>), and the value of the first candidate that parses.
\<close>

definition candidates :: "string \<Rightarrow> string option list" where
  "candidates t = [Some t, map_option trim (fence t), braces t]"

fun firstParsed :: "(string \<Rightarrow> 'j parsed) \<Rightarrow> string option list \<Rightarrow> 'j option" where
  "firstParsed parse [] = None"
| "firstParsed parse (None # cs) = firstParsed parse cs"
| "firstParsed parse (Some c # cs) =
     (case parse c of Parsed v \<Rightarrow> v | SyntaxError \<Rightarrow> firstParsed parse cs)"

definition fails :: "(string \<Rightarrow> 'j parsed) \<Rightarrow> string option \<Rightarrow> bool" where
  "fails parse c = (case c of None \<Rightarrow> True | Some t \<Rightarrow> parse t = SyntaxError)"

text \<open>
  The texts of the specification's examples, and a stand-in for \<open>JSON.parse\<close> that parses
  the one object text to a value and throws on every other text.
\<close>

definition dq :: char where
  "dq = CHR 0x22"

definition objectText :: string where
  "objectText =
     ''{'' @ [dq] @ ''findings'' @ [dq] @ '':[],'' @ [dq] @ ''summary'' @ [dq] @ '':'' @
     [dq] @ ''ok'' @ [dq] @ ''}''"

definition fencedText :: string where
  "fencedText = ''Sure! ```json'' @ [newline] @ objectText @ [newline] @ ''```''"

definition proseText :: string where
  "proseText = ''Here you go: '' @ objectText @ '' Bye.''"

definition exampleParse :: "string \<Rightarrow> unit parsed" where
  "exampleParse t = (if t = objectText then Parsed (Some ()) else SyntaxError)"

section \<open>Finding Merger\<close>

text \<open>
  A finding: \<open>file\<close>, \<open>severity\<close> and the texts are strings; \<open>line\<close>, \<open>comment\<close> and
  \<open>suggestion\<close> may be absent (\<open>None\<close> is the source's \<open>undefined\<close>).
\<close>

record finding =
  "file" :: string
  line :: "nat option"
  severity :: string
  comment :: "string option"
  suggestion :: "string option"

text \<open>The decimal digits of a number, as a template literal prints it.\<close>

fun showNat :: "nat \<Rightarrow> string" where
  "showNat n =
     (if n < 10 then [''0123456789'' ! n]
      else showNat (n div 10) @ [''0123456789'' ! (n mod 10)])"

declare showNat.simps [simp del]

text \<open>\<open>`${f.line}`\<close>.\<close>

definition lineText :: "nat option \<Rightarrow> string" where
  "lineText l = (case l of None \<Rightarrow> ''undefined'' | Some n \<Rightarrow> showNat n)"

text \<open>\<open>(f.comment || "")\<close>.\<close>

definition commentText :: "finding \<Rightarrow> string" where
  "commentText f = (case comment f of None \<Rightarrow> [] | Some c \<Rightarrow> c)"

text \<open>The key of \<open>mergeFindings\<close>, a template literal with \<open>|\<close> between the parts.\<close>

definition findingKey :: "finding \<Rightarrow> string" where
  "findingKey f =
     file f @ ''|'' @ lineText (line f) @ ''|'' @ severity f @ ''|'' @ take 100 (commentText f)"

text \<open>The loop of \<open>mergeFindings\<close>, with \<open>seen\<close> and \<open>merged\<close> as arguments.\<close>

fun mergeLoop :: "finding list \<Rightarrow> string set \<Rightarrow> finding list \<Rightarrow> finding list" where
  "mergeLoop [] seen merged = merged"
| "mergeLoop (f # fs) seen merged =
     (if findingKey f \<in> seen then mergeLoop fs seen merged
      else mergeLoop fs (insert (findingKey f) seen) (merged @ [f]))"

definition mergeFindings :: "finding list \<Rightarrow> finding list" where
  "mergeFindings all = mergeLoop all {} []"

text \<open>The identity of a finding in the data model: file, line, severity, comment prefix.\<close>

definition identity :: "finding \<Rightarrow> string \<times> nat option \<times> string \<times> string" where
  "identity f = (file f, line f, severity f, take 100 (commentText f))"

definition dupFinding :: finding where
  "dupFinding =
     \<lparr>file = ''a.js'', line = Some 1, severity = ''high'', comment = Some ''dup'',
      suggestion = None\<rparr>"

section \<open>Static Rule Scanner\<close>

text \<open>
  The expressions of \<open>STATIC_RULES\<close>, each as a matcher at one position. Where an
  expression has an optional or repeated part, the character that must follow cannot
  be part of it, so the greedy choice is the only one that can match.
\<close>

text \<open>\<open>/=\s*\{?\s*\(\s*\)\s*=>/\<close>\<close>

definition reInlineHandler :: "char option \<Rightarrow> string \<Rightarrow> bool" where
  "reInlineHandler prev s =
     (case expect ''='' s of
        None \<Rightarrow> False
      | Some r0 \<Rightarrow>
     (case expect ''('' (dropWhile isSpace
             (case expect ''{'' (dropWhile isSpace r0) of
                None \<Rightarrow> dropWhile isSpace r0
              | Some r1 \<Rightarrow> r1)) of
        None \<Rightarrow> False
      | Some r2 \<Rightarrow>
     (case expect '')'' (dropWhile isSpace r2) of
        None \<Rightarrow> False
      | Some r3 \<Rightarrow> startsWith (dropWhile isSpace r3) ''=>'')))"

text \<open>\<open>/dangerouslySetInnerHTML/\<close>\<close>

definition reDangerously :: "char option \<Rightarrow> string \<Rightarrow> bool" where
  "reDangerously prev s = startsWith s ''dangerouslySetInnerHTML''"

text \<open>\<open>/\beval\s*\(/\<close>\<close>

definition reEval :: "char option \<Rightarrow> string \<Rightarrow> bool" where
  "reEval prev s =
     (boundary prev s \<and>
      (case expect ''eval'' s of
         None \<Rightarrow> False
       | Some r \<Rightarrow> startsWith (dropWhile isSpace r) ''(''))"

text \<open>\<open>/\b(md5|sha1)\b/i\<close>\<close>

definition reWeakCrypto :: "char option \<Rightarrow> string \<Rightarrow> bool" where
  "reWeakCrypto prev s =
     (boundary prev s \<and>
      (case expectCI ''md5'' s of
         Some r \<Rightarrow> \<not> wordAfter r
       | None \<Rightarrow>
           (case expectCI ''sha1'' s of
              Some r \<Rightarrow> \<not> wordAfter r
            | None \<Rightarrow> False)))"

text \<open>\<open>/\bfs\.(readFileSync|writeFileSync|readdirSync|statSync)\b/\<close>\<close>

definition reSyncIo :: "char option \<Rightarrow> string \<Rightarrow> bool" where
  "reSyncIo prev s =
     (boundary prev s \<and>
      (case expect ''fs.'' s of
         None \<Rightarrow> False
       | Some r \<Rightarrow>
           list_ex (\<lambda>name. case expect name r of None \<Rightarrow> False | Some r' \<Rightarrow> \<not> wordAfter r')
             [''readFileSync'', ''writeFileSync'', ''readdirSync'', ''statSync'']))"

text \<open>A rule: identifier, matcher, severity, message.\<close>

datatype staticRule =
  Rule (ruleId: string) (ruleRe: "char option \<Rightarrow> string \<Rightarrow> bool") (ruleSeverity: string)
    (ruleMsg: string)

definition STATIC_RULES :: "staticRule list" where
  "STATIC_RULES =
     [Rule ''react-inline-handler'' reInlineHandler ''low''
        ''Inline arrow function in JSX may cause rerenders (extract handler)'',
      Rule ''dangerouslySetInnerHTML'' reDangerously ''high''
        ''dangerouslySetInnerHTML can introduce XSS; sanitize/escape content'',
      Rule ''no-eval'' reEval ''high'' ''Avoid eval()'',
      Rule ''weak-crypto'' reWeakCrypto ''medium'' ''Weak cryptography detected'',
      Rule ''sync-io'' reSyncIo ''medium'' ''Sync I/O in JS (prefer async)'']"

text \<open>
  The hunk header test of the scanner, \<open>/^@@ -\d+(?:,\d+)? \+(\d+)/\<close>: the digits of
  the group when the line matches.
\<close>

definition scanHeader :: "string \<Rightarrow> string option" where
  "scanHeader L =
     (case expect ''@@ -'' L of
        None \<Rightarrow> None
      | Some r0 \<Rightarrow>
     (case digits1 r0 of
        None \<Rightarrow> None
      | Some (_, r1) \<Rightarrow>
     (case expect '' +'' (optCommaDigits r1) of
        None \<Rightarrow> None
      | Some r3 \<Rightarrow>
     (case digits1 r3 of
        None \<Rightarrow> None
      | Some (d, _) \<Rightarrow> Some d))))"

text \<open>The finding a rule pushes for an added line.\<close>

definition ruleFinding :: "string \<Rightarrow> nat \<Rightarrow> staticRule \<Rightarrow> finding" where
  "ruleFinding name newLine r =
     \<lparr>file = name, line = Some newLine, severity = ruleSeverity r,
      comment = Some (ruleMsg r @ '' (rule: '' @ ruleId r @ '')''), suggestion = None\<rparr>"

text \<open>
  The inner loop over the rules for the code of one added line, and the loop of
  \<open>runStaticChecksOnPatch\<close> over the remaining lines with \<open>newLine\<close> and \<open>findings\<close> as
  arguments. The rules are a parameter; the source passes \<open>STATIC_RULES\<close>.
\<close>

definition lineFindings :: "staticRule list \<Rightarrow> string \<Rightarrow> nat \<Rightarrow> string \<Rightarrow> finding list" where
  "lineFindings rules name newLine code =
     map (ruleFinding name newLine) (filter (\<lambda>r. test (ruleRe r) code) rules)"

fun scanLoop ::
  "staticRule list \<Rightarrow> string \<Rightarrow> string list \<Rightarrow> nat \<Rightarrow> finding list \<Rightarrow> finding list" where
  "scanLoop rules name [] newLine findings = findings"
| "scanLoop rules name (L # ls) newLine findings =
     (case scanHeader L of
        Some d \<Rightarrow> scanLoop rules name ls (parseInt d) findings
      | None \<Rightarrow>
          (if startsWith L ''+'' then
             scanLoop rules name ls (newLine + 1)
               (findings @ lineFindings rules name newLine (drop 1 L))
           else if \<not> startsWith L ''-'' then scanLoop rules name ls (newLine + 1) findings
           else scanLoop rules name ls newLine findings))"

definition runStaticChecksWith :: "staticRule list \<Rightarrow> string \<Rightarrow> string \<Rightarrow> finding list" where
  "runStaticChecksWith rules name diffText = scanLoop rules name (splitLines diffText) 0 []"

definition runStaticChecksOnPatch :: "string \<Rightarrow> string \<Rightarrow> finding list" where
  "runStaticChecksOnPatch name diffText = runStaticChecksWith STATIC_RULES name diffText"

text \<open>
  The scanner's walk as the specification describes it: the running new-file line
  number on entry to each line, and for every added line the findings of the rules that
  match its code.
\<close>

definition scanAdvance :: "nat \<Rightarrow> string \<Rightarrow> nat" where
  "scanAdvance n L =
     (case scanHeader L of
        Some d \<Rightarrow> parseInt d
      | None \<Rightarrow> (if startsWith L ''-'' then n else n + 1))"

fun scanLineNumbers :: "nat \<Rightarrow> string list \<Rightarrow> nat list" where
  "scanLineNumbers n [] = []"
| "scanLineNumbers n (L # ls) = n # scanLineNumbers (scanAdvance n L) ls"

definition isAdded :: "string \<Rightarrow> bool" where
  "isAdded L = (scanHeader L = None \<and> startsWith L ''+'')"

definition scan :: "staticRule list \<Rightarrow> string \<Rightarrow> string \<Rightarrow> finding list" where
  "scan rules name diffText =
     concat (map (\<lambda>(L, n). if isAdded L then lineFindings rules name n (drop 1 L) else [])
       (zip (splitLines diffText) (scanLineNumbers 0 (splitLines diffText))))"

text \<open>A patch that adds a call of \<open>eval\<close>, one that removes it, and one whose added line
  matches two rules.\<close>

definition addsEval :: string where
  "addsEval = ''@@ -1,2 +1,3 @@'' @ [newline] @ '' a'' @ [newline] @ ''+eval(x)'' @ [newline] @ '' b''"

definition removesEval :: string where
  "removesEval = ''@@ -1,2 +1,1 @@'' @ [newline] @ '' a'' @ [newline] @ ''-eval(x)''"

definition addsEvalMd5 :: string where
  "addsEvalMd5 = ''@@ -7,0 +8,1 @@'' @ [newline] @ ''+eval(md5(x))''"

definition addsRetrieval :: string where
  "addsRetrieval = ''@@ -1,0 +1,1 @@'' @ [newline] @ ''+retrieval(x)''"

definition noEvalFinding :: "string \<Rightarrow> nat \<Rightarrow> finding" where
  "noEvalFinding name n =
     \<lparr>file = name, line = Some n, severity = ''high'',
      comment = Some ''Avoid eval() (rule: no-eval)'', suggestion = None\<rparr>"

section \<open>Redactor\<close>

text \<open>
  An expression with the flag \<open>g\<close> is a matcher: given the character before a position
  (if any) and the text from the position on, the length of the match the expression
  finds there, if it finds one. Every expression of \<open>SECRET_PATTERNS\<close> needs at least
  one character, so there is no match at the end of the text and no empty match.
\<close>

type_synonym matcher = "char option \<Rightarrow> string \<Rightarrow> nat option"

definition placeholder :: string where
  "placeholder = ''[REDACTED]''"

text \<open>
  \<open>t.replace(re, "[REDACTED]")\<close> from a position on: at a match the placeholder is put
  out and the scan goes on behind the match; elsewhere the character is kept. After an
  empty match the character is kept and the scan moves by one.
\<close>

function replaceFrom :: "matcher \<Rightarrow> char option \<Rightarrow> string \<Rightarrow> string" where
  "replaceFrom m prev [] = []"
| "replaceFrom m prev (c # cs) =
     (case m prev (c # cs) of
        None \<Rightarrow> c # replaceFrom m (Some c) cs
      | Some n \<Rightarrow>
          (if n = 0 then placeholder @ c # replaceFrom m (Some c) cs
           else placeholder @
                  replaceFrom m (Some (last (take n (c # cs)))) (drop n (c # cs))))"
  by pat_completeness auto
termination
  by (relation "measure (\<lambda>(m, prev, s). length s)") auto

definition replaceAll :: "matcher \<Rightarrow> string \<Rightarrow> string" where
  "replaceAll m s = replaceFrom m None s"

text \<open>Character classes of the expressions.\<close>

definition isUpper :: "char \<Rightarrow> bool" where
  "isUpper c = (c \<in> set ''ABCDEFGHIJKLMNOPQRSTUVWXYZ'')"

definition isLower :: "char \<Rightarrow> bool" where
  "isLower c = (c \<in> set ''abcdefghijklmnopqrstuvwxyz'')"

definition isAlnum :: "char \<Rightarrow> bool" where
  "isAlnum c = (isUpper c \<or> isLower c \<or> isDigit c)"

text \<open>\<open>[A-Z ]\<close>, \<open>[A-Za-z0-9_-]\<close>, \<open>[0-9A-Z]\<close>, \<open>[A-Za-z0-9/+]\<close>, \<open>[_\-\s]\<close> and \<open>["']\<close>.\<close>

definition isUpperOrBlank :: "char \<Rightarrow> bool" where
  "isUpperOrBlank c = (isUpper c \<or> c = CHR '' '')"

definition isKeyChar :: "char \<Rightarrow> bool" where
  "isKeyChar c = (isAlnum c \<or> c = CHR ''_'' \<or> c = CHR ''-'')"

definition isUpperOrDigit :: "char \<Rightarrow> bool" where
  "isUpperOrDigit c = (isDigit c \<or> isUpper c)"

definition isBase64Char :: "char \<Rightarrow> bool" where
  "isBase64Char c = (isAlnum c \<or> c = CHR ''/'' \<or> c = CHR ''+'')"

definition isSeparator :: "char \<Rightarrow> bool" where
  "isSeparator c = (c = CHR ''_'' \<or> c = CHR ''-'' \<or> isSpace c)"

definition isQuote :: "char \<Rightarrow> bool" where
  "isQuote c = (c = CHR 0x22 \<or> c = CHR 0x27)"

definition orElse :: "'a option \<Rightarrow> 'a option \<Rightarrow> 'a option" where
  "orElse a b = (case a of None \<Rightarrow> b | Some x \<Rightarrow> Some x)"

text \<open>\<open>["']?\<close>: the rest after an optional quote.\<close>

definition optQuote :: "string \<Rightarrow> string" where
  "optQuote s = (case s of [] \<Rightarrow> s | c # r \<Rightarrow> (if isQuote c then r else s))"

text \<open>
  \<open>\s*[:=]\s*["']?C{n,}["']?\<close> for a class \<open>C\<close> that holds no quote: the rest after the
  match. The run of \<open>C\<close> is taken whole, since nothing that follows can fail.
\<close>

definition assignTail :: "(char \<Rightarrow> bool) \<Rightarrow> nat \<Rightarrow> string \<Rightarrow> string option" where
  "assignTail cls n r =
     (case dropWhile isSpace r of
        [] \<Rightarrow> None
      | c # r1 \<Rightarrow>
          (if c = CHR '':'' \<or> c = CHR ''='' then
             (if n \<le> length (takeWhile cls (optQuote (dropWhile isSpace r1)))
              then Some (optQuote (dropWhile cls (optQuote (dropWhile isSpace r1))))
              else None)
           else None))"

text \<open>
  \<open>C{lo,}\b\<close> on the text \<open>r\<close>: the number of characters taken, the largest count from
  \<open>lo\<close> to the length of the run of \<open>C\<close> behind which there is a word boundary.
\<close>

definition greedyBoundary :: "nat \<Rightarrow> (char \<Rightarrow> bool) \<Rightarrow> string \<Rightarrow> nat option" where
  "greedyBoundary lo cls r =
     find (\<lambda>k. boundary (Some (r ! (k - 1))) (drop k r))
       (rev [lo..<Suc (length (takeWhile cls r))])"

text \<open>
  \<open>-----BEGIN [A-Z ]*PRIVATE KEY-----\<close> and the same with \<open>END\<close>: the length of the
  marker. The run of \<open>[A-Z ]\<close> behind the key word has to end in \<open>PRIVATE KEY\<close>, since
  the hyphen that follows is not of the class.
\<close>

definition endsWith :: "string \<Rightarrow> string \<Rightarrow> bool" where
  "endsWith s p = (length p \<le> length s \<and> drop (length s - length p) s = p)"

definition pemMarker :: "string \<Rightarrow> string \<Rightarrow> nat option" where
  "pemMarker kw s =
     (case expect (''-----'' @ kw @ '' '') s of
        None \<Rightarrow> None
      | Some r \<Rightarrow>
          (if endsWith (takeWhile isUpperOrBlank r) ''PRIVATE KEY'' \<and>
              startsWith (dropWhile isUpperOrBlank r) ''-----''
           then Some (length kw + 6 + length (takeWhile isUpperOrBlank r) + 5)
           else None))"

text \<open>\<open>[\s\S]*?\<close> and the end marker: the offset behind the first end marker.\<close>

fun findEnd :: "string \<Rightarrow> nat option" where
  "findEnd [] = None"
| "findEnd (c # cs) =
     (case pemMarker ''END'' (c # cs) of
        Some n \<Rightarrow> Some n
      | None \<Rightarrow> map_option Suc (findEnd cs))"

text \<open>\<open>/-----BEGIN [A-Z ]*PRIVATE KEY-----[\s\S]*?-----END [A-Z ]*PRIVATE KEY-----/g\<close>\<close>

definition rePem :: matcher where
  "rePem prev s =
     (case pemMarker ''BEGIN'' s of
        None \<Rightarrow> None
      | Some b \<Rightarrow> map_option (\<lambda>e. b + e) (findEnd (drop b s)))"

text \<open>
  \<open>(?:api[_\-\s]*key|secret|token|password|passwd|authorization)\<close> under the flag \<open>i\<close>:
  the rest after the key word. At most one alternative matches at a position.
\<close>

definition keyword :: "string \<Rightarrow> string option" where
  "keyword s =
     orElse (case expectCI ''api'' s of
               None \<Rightarrow> None
             | Some r \<Rightarrow> expectCI ''key'' (dropWhile isSeparator r))
    (orElse (expectCI ''secret'' s)
    (orElse (expectCI ''token'' s)
    (orElse (expectCI ''password'' s)
    (orElse (expectCI ''passwd'' s)
            (expectCI ''authorization'' s)))))"

text \<open>\<open>/(?:api[_\-\s]*key|...|authorization)\s*[:=]\s*["']?[A-Za-z0-9_-]{12,}["']?/gi\<close>\<close>

definition reAssignment :: matcher where
  "reAssignment prev s =
     (case keyword s of
        None \<Rightarrow> None
      | Some r \<Rightarrow>
          (case assignTail isKeyChar 12 r of
             None \<Rightarrow> None
           | Some rest \<Rightarrow> Some (length s - length rest)))"

text \<open>\<open>/\b(AIza|ya29\.)[A-Za-z0-9_-]{20,}\b/g\<close>\<close>

definition reGoogle :: matcher where
  "reGoogle prev s =
     (if boundary prev s then
        (case orElse (expect ''AIza'' s) (expect ''ya29.'' s) of
           None \<Rightarrow> None
         | Some r \<Rightarrow>
             map_option (\<lambda>k. length s - length r + k) (greedyBoundary 20 isKeyChar r))
      else None)"

text \<open>\<open>/\bghp_[A-Za-z0-9]{20,}\b/g\<close>\<close>

definition reGithub :: matcher where
  "reGithub prev s =
     (if boundary prev s then
        (case expect ''ghp_'' s of
           None \<Rightarrow> None
         | Some r \<Rightarrow> map_option (\<lambda>k. 4 + k) (greedyBoundary 20 isAlnum r))
      else None)"

text \<open>\<open>/\bAKIA[0-9A-Z]{16}\b/g\<close>\<close>

definition reAwsKeyId :: matcher where
  "reAwsKeyId prev s =
     (if boundary prev s then
        (case expect ''AKIA'' s of
           None \<Rightarrow> None
         | Some r \<Rightarrow>
             (if 16 \<le> length (takeWhile isUpperOrDigit r) \<and>
                 boundary (Some (r ! 15)) (drop 16 r)
              then Some 20 else None))
      else None)"

text \<open>\<open>/\baws_secret_access_key\b\s*[:=]\s*["']?[A-Za-z0-9/+]{30,}["']?/gi\<close>\<close>

definition reAwsSecret :: matcher where
  "reAwsSecret prev s =
     (if boundary prev s then
        (case expectCI ''aws_secret_access_key'' s of
           None \<Rightarrow> None
         | Some r \<Rightarrow>
             (if wordAfter r then None
              else (case assignTail isBase64Char 30 r of
                      None \<Rightarrow> None
                    | Some rest \<Rightarrow> Some (length s - length rest))))
      else None)"

text \<open>\<open>/\bsk-[A-Za-z0-9]{20,}\b/g\<close>\<close>

definition reSk :: matcher where
  "reSk prev s =
     (if boundary prev s then
        (case expect ''sk-'' s of
           None \<Rightarrow> None
         | Some r \<Rightarrow> map_option (\<lambda>k. 3 + k) (greedyBoundary 20 isAlnum r))
      else None)"

definition SECRET_PATTERNS :: "matcher list" where
  "SECRET_PATTERNS = [rePem, reAssignment, reGoogle, reGithub, reAwsKeyId, reAwsSecret, reSk]"

text \<open>\<open>redact\<close>: the expressions one after the other, each on the result of the one before.\<close>

definition redact :: "string \<Rightarrow> string" where
  "redact s = foldl (\<lambda>t re. replaceAll re t) s SECRET_PATTERNS"




section \<open>Review Orchestrator\<close>

text \<open>
  The collaborators are parameters. \<open>callOpenRouter\<close> is a function from the index of
  the batch and the batch (the prompt is a fixed text around it) to the error message of
  the exception it throws or to the content it returns. The value \<open>JSON.parse\<close> returns
  is read through \<open>typeofObject\<close> (\<open>typeof v === "object"\<close>), \<open>findingsField\<close>
  (\<open>v.findings\<close> when it is an array) and \<open>summaryField\<close> (\<open>v.summary\<close> when it is truthy).
\<close>

datatype callResult = CallError string | Content string

record 'j jsonApi =
  jsonParse :: "string \<Rightarrow> 'j parsed"
  typeofObject :: "'j \<Rightarrow> bool"
  findingsField :: "'j \<Rightarrow> finding list option"
  summaryField :: "'j \<Rightarrow> string option"

text \<open>
  What one reply adds: \<open>out\<close> is the parsed value when it is an object, and otherwise
  the default with no findings and the given summary; the batch adds the findings of
  \<open>out\<close>, when they are an array, and its summary, when it has one.
\<close>

definition replyOut ::
  "'j jsonApi \<Rightarrow> string \<Rightarrow> string \<Rightarrow> finding list option \<times> string option" where
  "replyOut api fallback raw =
     (case extractJsonFromText (jsonParse api) (Str raw) of
        None \<Rightarrow> (Some [], Some fallback)
      | Some v \<Rightarrow>
          (if typeofObject api v then (findingsField api v, summaryField api v)
           else (Some [], Some fallback)))"

definition replyFindings :: "'j jsonApi \<Rightarrow> string \<Rightarrow> string \<Rightarrow> finding list" where
  "replyFindings api fallback raw =
     (case fst (replyOut api fallback raw) of None \<Rightarrow> [] | Some fs \<Rightarrow> fs)"

definition replySummaries :: "'j jsonApi \<Rightarrow> string \<Rightarrow> string \<Rightarrow> string list" where
  "replySummaries api fallback raw =
     (case snd (replyOut api fallback raw) of None \<Rightarrow> [] | Some t \<Rightarrow> [t])"

text \<open>
  The batch loop of both modes, with \<open>allFindings\<close> and \<open>summaries\<close> as arguments. A
  failed call whose message includes \<open>401\<close> ends the process (\<open>None\<close>); any other failed
  call is skipped.
\<close>

fun batchLoop ::
  "'j jsonApi \<Rightarrow> string \<Rightarrow> (nat \<Rightarrow> string \<Rightarrow> callResult) \<Rightarrow> nat \<Rightarrow> string list \<Rightarrow>
     finding list \<Rightarrow> string list \<Rightarrow> (finding list \<times> string list) option" where
  "batchLoop api fallback call i [] allFindings summaries = Some (allFindings, summaries)"
| "batchLoop api fallback call i (b # bs) allFindings summaries =
     (case call i b of
        CallError msg \<Rightarrow>
          (if includesStr msg ''401'' then None
           else batchLoop api fallback call (i + 1) bs allFindings summaries)
      | Content raw \<Rightarrow>
          batchLoop api fallback call (i + 1) bs
            (allFindings @ replyFindings api fallback raw)
            (summaries @ replySummaries api fallback raw))"

text \<open>\<open>xs.slice(0, 3).join(" ")\<close>.\<close>

fun joinBlank :: "string list \<Rightarrow> string" where
  "joinBlank [] = []"
| "joinBlank [x] = x"
| "joinBlank (x # y # ys) = x @ '' '' @ joinBlank (y # ys)"

definition batchesSummary :: "nat \<Rightarrow> string list \<Rightarrow> string" where
  "batchesSummary n summaries =
     ''Batches: '' @ showNat n @ ''. '' @ joinBlank (take 3 summaries)"

subsection \<open>Pull request mode\<close>

text \<open>The static findings of the files that have a patch, in the order of the files.\<close>

definition staticFindingsOf :: "prFile list \<Rightarrow> finding list" where
  "staticFindingsOf files =
     concat (map (\<lambda>f. case patch f of
                          None \<Rightarrow> []
                        | Some p \<Rightarrow> (if p = [] then [] else runStaticChecksOnPatch (filename f) p))
               files)"

text \<open>
  \<open>runPRReview\<close> up to its summary comment: the comment that there is nothing to review,
  the comment on the failed authentication before the process ends, or the review with
  its summary and its merged findings.
\<close>

datatype prOutcome =
  NothingToReview
| PrUnauthorized
| Reviewed string "finding list"

definition prFallback :: string where
  "prFallback = ''Model did not return valid JSON for this batch.''"

definition runPRReview ::
  "'j jsonApi \<Rightarrow> (nat \<Rightarrow> string \<Rightarrow> callResult) \<Rightarrow> prFile list \<Rightarrow> prOutcome" where
  "runPRReview api call files =
     (let staticFindings = staticFindingsOf files;
          batches = map redact (batchPRFiles files)
      in if batches = [] then NothingToReview
         else (case batchLoop api prFallback call 0 batches [] [] of
                 None \<Rightarrow> PrUnauthorized
               | Some (allFindings, summaries) \<Rightarrow>
                   Reviewed
                     (if summaries \<noteq> [] then batchesSummary (length batches) summaries
                      else ''Reviewed '' @ showNat (length batches) @ '' batch(es).'')
                     (mergeFindings (allFindings @ staticFindings))))"

text \<open>
  The findings of the model in batch order: those of the replies to the batches whose
  call returned.
\<close>

fun modelFindings ::
  "'j jsonApi \<Rightarrow> string \<Rightarrow> (nat \<Rightarrow> string \<Rightarrow> callResult) \<Rightarrow> nat \<Rightarrow> string list \<Rightarrow> finding list" where
  "modelFindings api fallback call i [] = []"
| "modelFindings api fallback call i (b # bs) =
     (case call i b of
        CallError msg \<Rightarrow> []
      | Content raw \<Rightarrow> replyFindings api fallback raw)
     @ modelFindings api fallback call (i + 1) bs"

subsection \<open>Full repository mode\<close>






text \<open>
  Collaborators for the examples: a reply reader on top of \<open>exampleParse\<close> whose one
  object holds a finding on \<open>eval\<close> with a suggestion and a second finding; a model that
  always returns the object text, one that always fails with status 500, and one that
  fails with status 401; and two changed files.
\<close>

definition modelEval :: finding where
  "modelEval = (noEvalFinding ''f.js'' 2)\<lparr>suggestion := Some ''use JSON.parse''\<rparr>"

definition modelOther :: finding where
  "modelOther =
     \<lparr>file = ''g.js'', line = Some 8, severity = ''low'', comment = Some ''naming'',
      suggestion = None\<rparr>"

definition exampleApi :: "unit jsonApi" where
  "exampleApi =
     \<lparr>jsonParse = exampleParse, typeofObject = (\<lambda>v. True),
      findingsField = (\<lambda>v. Some [modelEval, modelOther]),
      summaryField = (\<lambda>v. Some ''ok'')\<rparr>"

definition callOk :: "nat \<Rightarrow> string \<Rightarrow> callResult" where
  "callOk i b = Content objectText"



definition evalFiles :: "prFile list" where
  "evalFiles =
     [\<lparr>filename = ''f.js'', patch = Some addsEval\<rparr>,
      \<lparr>filename = ''g.js'', patch = Some addsEvalMd5\<rparr>]"

definition weakCryptoFinding :: "string \<Rightarrow> nat \<Rightarrow> finding" where
  "weakCryptoFinding name n =
     \<lparr>file = name, line = Some n, severity = ''medium'',
      comment = Some ''Weak cryptography detected (rule: weak-crypto)'', suggestion = None\<rparr>"

section \<open>Properties of the Diff Position Mapper\<close>

lemma startsWith_plus_minus: "startsWith L ''+'' \<Longrightarrow> \<not> startsWith L ''-''"
  by (cases L) (auto simp: startsWith_def)

lemma diffLoop_firstIndex:
  "diffLoop t ls pos n =
     map_option (\<lambda>i. pos + Suc i) (firstIndex (hit t) (zip ls (lineNumbers n ls)))"
proof (induction ls arbitrary: pos n)
  case Nil
  show ?case by simp
next
  case (Cons L ls)
  show ?case
  proof (cases "hunkHeader L")
    case (Some d)
    then show ?thesis
      by (simp add: Cons.IH hit_def advance_def option.map_comp comp_def)
  next
    case None
    then show ?thesis
      by (auto simp: Cons.IH hit_def advance_def option.map_comp comp_def
            dest: startsWith_plus_minus)
  qed
qed


lemma startsWith_minus_no_header: "startsWith L ''-'' \<Longrightarrow> hunkHeader L = None"
  by (cases L) (auto simp: startsWith_def hunkHeader_def expect_def)

lemma firstIndex_None: "firstIndex P xs = None \<longleftrightarrow> list_all (\<lambda>x. \<not> P x) xs"
  by (induction xs) auto

lemma firstIndex_Some:
  "firstIndex P xs = Some i \<Longrightarrow> i < length xs \<and> P (xs ! i) \<and> (\<forall>j<i. \<not> P (xs ! j))"
proof (induction xs arbitrary: i)
  case Nil
  then show ?case by simp
next
  case (Cons x xs)
  show ?case
  proof (cases "P x")
    case True
    with Cons.prems show ?thesis by simp
  next
    case False
    with Cons.prems obtain k where k: "firstIndex P xs = Some k" "i = Suc k"
      by auto
    from Cons.IH [OF k(1)] False k(2) show ?thesis
      by (auto simp: less_Suc_eq_0_disj)
  qed
qed

lemma length_lineNumbers: "length (lineNumbers n ls) = length ls"
  by (induction ls arbitrary: n) auto

lemma exampleDiff_lines:
  "splitLines exampleDiff =
     [''@@ -1,3 +1,4 @@'', '' context'', ''+added1'', ''+added2'', '' context2'']"
  by (simp add: exampleDiff_def newline_def)

lemma removalDiff_lines:
  "splitLines removalDiff = [''@@ -1,2 +1,1 @@'', '' keep'', ''-gone'']"
  by (simp add: removalDiff_def newline_def)

lemma hunkHeader_example: "hunkHeader ''@@ -1,3 +1,4 @@'' = Some ''1''"
  by (simp add: hunkHeader_def expect_def startsWith_def digits1_def optCommaDigits_def
        isDigit_def)

lemma hunkHeader_removal: "hunkHeader ''@@ -1,2 +1,1 @@'' = Some ''1''"
  by (simp add: hunkHeader_def expect_def startsWith_def digits1_def optCommaDigits_def
        isDigit_def)

lemma hunkHeader_not_at: "hunkHeader (c # r) = None" if "c \<noteq> CHR ''@''"
  using that by (simp add: hunkHeader_def expect_def startsWith_def)

lemma parseInt_1: "parseInt ''1'' = 1"
  by (simp add: parseInt_def digitVal_def)

text \<open>
  C1. For every diff text and target, \<open>diffPositionForLine\<close> is the specification's
  walk \<open>positionOf\<close>: the result is the 1-based index, counted over every line of the
  diff (headers, context, additions and deletions alike), of the first line that is
  neither a header nor removed and whose running new-file number is the target. A
  returned position lies within the diff's lines. A removed line adds one to the
  position and leaves the new-file line counter alone. On the example diff with target 2
  the result is 3, the position of \<open>+added1\<close>. When every line whose running
  new-file number is the target is a removed line, the result is not-found.
\<close>

theorem diffPositionForLine_walk:
  "diffPositionForLine diffText t = positionOf diffText t
   \<and> (\<forall>p. diffPositionForLine diffText t = Some p \<longrightarrow>
          1 \<le> p \<and> p \<le> length (splitLines diffText))
   \<and> diffLoop t ((CHR ''-'' # r) # ls) pos n = diffLoop t ls (pos + 1) n
   \<and> diffPositionForLine exampleDiff 2 = Some 3
   \<and> (list_all (\<lambda>(L, k). k = t \<longrightarrow> startsWith L ''-'')
          (zip (splitLines diffText) (lineNumbers 0 (splitLines diffText)))
        \<longrightarrow> diffPositionForLine diffText t = None)"
proof (intro conjI allI impI)
  show eq: "diffPositionForLine diffText t = positionOf diffText t"
    by (simp add: diffPositionForLine_def positionOf_def diffLoop_firstIndex)
  show "diffLoop t ((CHR ''-'' # r) # ls) pos n = diffLoop t ls (pos + 1) n"
    by (simp add: hunkHeader_not_at startsWith_def)
  show "diffPositionForLine exampleDiff 2 = Some 3"
    by (simp add: diffPositionForLine_def exampleDiff_lines hunkHeader_example
          hunkHeader_not_at startsWith_def parseInt_1)
next
  fix p
  assume "diffPositionForLine diffText t = Some p"
  then obtain i where i: "p = Suc i"
    "firstIndex (hit t) (zip (splitLines diffText) (lineNumbers 0 (splitLines diffText))) = Some i"
    by (auto simp: diffPositionForLine_def diffLoop_firstIndex)
  from firstIndex_Some [OF i(2)] have "i < length (splitLines diffText)"
    by (simp add: length_lineNumbers)
  with i(1) show "1 \<le> p" and "p \<le> length (splitLines diffText)"
    by simp_all
next
  assume "list_all (\<lambda>(L, k). k = t \<longrightarrow> startsWith L ''-'')
            (zip (splitLines diffText) (lineNumbers 0 (splitLines diffText)))"
  then have "list_all (\<lambda>x. \<not> hit t x)
               (zip (splitLines diffText) (lineNumbers 0 (splitLines diffText)))"
    by (rule list.pred_mono_strong) (auto simp: hit_def)
  then show "diffPositionForLine diffText t = None"
    by (simp add: diffPositionForLine_def diffLoop_firstIndex firstIndex_None)
qed

theorem diffPositionForLine_walk_witness:
  "list_all (\<lambda>(L, k). k = 2 \<longrightarrow> startsWith L ''-'')
     (zip (splitLines removalDiff) (lineNumbers 0 (splitLines removalDiff)))
   \<and> diffPositionForLine removalDiff 2 = None
   \<and> positionOf removalDiff 2 = None
   \<and> diffPositionForLine removalDiff 1 = Some 2"
proof -
  have h: "list_all (\<lambda>(L, k). k = 2 \<longrightarrow> startsWith L ''-'')
     (zip (splitLines removalDiff) (lineNumbers 0 (splitLines removalDiff)))"
    by (simp add: removalDiff_lines advance_def hunkHeader_removal hunkHeader_not_at
          startsWith_def parseInt_1)
  have one: "diffPositionForLine removalDiff 1 = Some 2"
    by (simp add: diffPositionForLine_def removalDiff_lines hunkHeader_removal
          hunkHeader_not_at startsWith_def parseInt_1)
  note w = diffPositionForLine_walk [of removalDiff 2 "[]" "[]" 0 0]
  from w h have none: "diffPositionForLine removalDiff 2 = None"
    by (elim conjE) (rule mp)
  from w have "diffPositionForLine removalDiff 2 = positionOf removalDiff 2"
    by (elim conjE)
  with none have "positionOf removalDiff 2 = None"
    by simp
  with h none one show ?thesis
    by (intro conjI)
qed
section \<open>Properties of the Chunker\<close>

lemma makeUnifiedChunk_nonempty: "makeUnifiedChunk name p \<noteq> []"
  by (simp add: makeUnifiedChunk_def)

lemma prChunk_nonempty: "prChunk f = Some c \<Longrightarrow> c \<noteq> []"
  by (auto simp: prChunk_def makeUnifiedChunk_nonempty split: option.splits if_splits)

lemma sliceFileContent_nonempty: "sliceFileContent readFile rel p = Some c \<Longrightarrow> c \<noteq> []"
  by (auto simp: sliceFileContent_def split: option.splits if_splits)

lemma map_filter_all: "(\<And>x y. f x = Some y \<Longrightarrow> P y) \<Longrightarrow> list_all P (List.map_filter f xs)"
  by (induction xs) (auto simp: List.map_filter_simps split: option.splits)

lemma prChunks_nonempty: "list_all (\<lambda>c. c \<noteq> []) (prChunks files)"
  unfolding prChunks_def by (rule map_filter_all) (rule prChunk_nonempty)

lemma fileParts_nonempty: "list_all (\<lambda>c. c \<noteq> []) (fileParts readFile rel files)"
  unfolding fileParts_def by (rule map_filter_all) (rule sliceFileContent_nonempty)

lemma batchPRLoop_chunkLoop:
  "batchPRLoop cap files buf batches = chunkLoop cap (prChunks files) buf batches"
proof (induction files arbitrary: buf batches)
  case Nil
  show ?case by (simp add: prChunks_def List.map_filter_simps)
next
  case (Cons f files)
  show ?case
    using Cons.IH
    by (simp add: prChunks_def List.map_filter_simps prChunk_def split: option.splits)
qed

lemma batchesLoop_chunkLoop:
  "batchesLoop readFile rel cap files buf batches =
     chunkLoop cap (fileParts readFile rel files) buf batches"
proof (induction files arbitrary: buf batches)
  case Nil
  show ?case by (simp add: fileParts_def List.map_filter_simps)
next
  case (Cons f files)
  show ?case
  proof (cases "sliceFileContent readFile rel f")
    case None
    then show ?thesis
      using Cons.IH by (simp add: fileParts_def List.map_filter_simps)
  next
    case (Some part)
    then have "part \<noteq> []"
      by (rule sliceFileContent_nonempty)
    with Some show ?thesis
      using Cons.IH by (simp add: fileParts_def List.map_filter_simps)
  qed
qed

lemma chunkLoop_groupLoop:
  "chunkLoop cap parts (concat cur) (map concat groups) =
     map concat (groupLoop cap parts cur groups)"
  if "list_all (\<lambda>c. c \<noteq> []) parts" "list_all (\<lambda>c. c \<noteq> []) cur"
  using that
proof (induction parts arbitrary: cur groups)
  case Nil
  then show ?case by (cases cur) auto
next
  case (Cons part parts)
  from Cons.prems have ne: "concat cur \<noteq> [] \<longleftrightarrow> cur \<noteq> []"
    by (cases cur) auto
  show ?case
  proof (cases "length (concat cur) + length part > cap")
    case True
    from Cons.prems have "list_all (\<lambda>c. c \<noteq> []) parts" "list_all (\<lambda>c. c \<noteq> []) [part]"
      by simp_all
    from Cons.IH [OF this, of "if cur \<noteq> [] then groups @ [cur] else groups"] True ne
    show ?thesis by (cases "cur = []") simp_all
  next
    case False
    from Cons.prems have "list_all (\<lambda>c. c \<noteq> []) parts" "list_all (\<lambda>c. c \<noteq> []) (cur @ [part])"
      by simp_all
    from Cons.IH [OF this, of groups] False show ?thesis by simp
  qed
qed

lemma groupLoop_concat:
  "concat (groupLoop cap parts cur groups) = concat groups @ cur @ parts"
  by (induction parts arbitrary: cur groups) auto

lemma groupLoop_fits:
  "list_all (fits cap) (groupLoop cap parts cur groups)"
  if "list_all (fits cap) groups" "cur = [] \<or> fits cap cur"
  using that
proof (induction parts arbitrary: cur groups)
  case Nil
  then show ?case by auto
next
  case (Cons part parts)
  show ?case
  proof (cases "length (concat cur) + length part > cap")
    case True
    have "list_all (fits cap) (if cur \<noteq> [] then groups @ [cur] else groups)"
      using Cons.prems by auto
    moreover have "[part] = [] \<or> fits cap [part]"
      by (simp add: fits_def)
    ultimately show ?thesis
      using True Cons.IH by simp
  next
    case False
    then have "cur @ [part] = [] \<or> fits cap (cur @ [part])"
      by (simp add: fits_def)
    with Cons.prems(1) show ?thesis
      using False Cons.IH by simp
  qed
qed

lemma chunkLoop_partitions:
  "partitions cap parts (chunkLoop cap parts [] []) (groupLoop cap parts [] [])"
  if "list_all (\<lambda>c. c \<noteq> []) parts"
proof -
  from chunkLoop_groupLoop [OF that, of "[]" cap "[]"]
  have "map concat (groupLoop cap parts [] []) = chunkLoop cap parts [] []"
    by simp
  moreover have "list_all (fits cap) (groupLoop cap parts [] [])"
    by (rule groupLoop_fits) simp_all
  ultimately show ?thesis
    by (simp add: partitions_def groupLoop_concat)
qed

lemma concat_map_concat_groups: "concat (map concat gs) = concat (concat gs)"
  by (induction gs) auto

lemma partitions_concat:
  "partitions cap units batches groups \<Longrightarrow> concat batches = concat units"
  by (auto simp: partitions_def concat_map_concat_groups)

lemma partitions_lengths:
  assumes "partitions cap units batches groups"
  shows "sum_list (map length batches) = sum_list (map length units)"
proof -
  from assms have "concat batches = concat units"
    by (rule partitions_concat)
  then have "length (concat batches) = length (concat units)"
    by simp
  then show ?thesis
    by (simp add: length_concat)
qed

lemma chunkLoop_length_acc:
  "length (chunkLoop cap parts buf batches) =
     length batches + length (chunkLoop cap parts buf [])"
proof (induction parts arbitrary: buf batches)
  case Nil
  show ?case by simp
next
  case (Cons part parts)
  show ?case
  proof (cases "length buf + length part > cap")
    case True
    have "length (chunkLoop cap parts part (if buf \<noteq> [] then batches @ [buf] else batches)) =
            length (if buf \<noteq> [] then batches @ [buf] else batches) +
            length (chunkLoop cap parts part [])"
      by (rule Cons.IH)
    moreover
    have "length (chunkLoop cap parts part (if buf \<noteq> [] then [buf] else [])) =
            length (if buf \<noteq> [] then [buf] else []) + length (chunkLoop cap parts part [])"
      by (rule Cons.IH)
    ultimately show ?thesis
      using True by (cases "buf = []") simp_all
  next
    case False
    then show ?thesis
      using Cons.IH [of "buf @ part" batches] by simp
  qed
qed

lemma chunkLoop_count_Cons:
  "length (chunkLoop cap (part # parts) buf []) =
     (if length buf + length part > cap
      then (if buf \<noteq> [] then 1 else 0) + length (chunkLoop cap parts part [])
      else length (chunkLoop cap parts (buf @ part) []))"
  using chunkLoop_length_acc [of cap parts part "[buf]"] by simp

lemma chunkLoop_count_Nil:
  "length (chunkLoop cap [] buf []) = (if buf \<noteq> [] then 1 else 0)"
  by simp

text \<open>
  With one cap, a fuller buffer costs at most one batch more than any other buffer, and
  a longer buffer never gives fewer batches than a shorter one.
\<close>

lemma chunkLoop_count_buffer:
  "length (chunkLoop cap parts b []) \<le> 1 + length (chunkLoop cap parts b' []) \<and>
   (length b \<le> length b' \<longrightarrow>
      length (chunkLoop cap parts b []) \<le> length (chunkLoop cap parts b' []))"
proof (induction parts arbitrary: b b')
  case Nil
  show ?case by auto
next
  case (Cons part parts)
  note IH1 = Cons.IH [THEN conjunct1]
  note IH2 = Cons.IH [THEN conjunct2, rule_format]
  have one: "length (chunkLoop cap (part # parts) b []) \<le>
               1 + length (chunkLoop cap (part # parts) b' [])"
  proof (cases "length b + length part > cap")
    case True
    note fb = this
    show ?thesis
    proof (cases "length b' + length part > cap")
      case True
      with fb show ?thesis by (simp add: chunkLoop_count_Cons del: chunkLoop.simps)
    next
      case False
      have "length (chunkLoop cap parts part []) \<le> length (chunkLoop cap parts (b' @ part) [])"
        by (rule IH2) simp
      with fb False show ?thesis by (simp add: chunkLoop_count_Cons del: chunkLoop.simps)
    qed
  next
    case False
    note nb = this
    show ?thesis
    proof (cases "length b' + length part > cap")
      case True
      have "length (chunkLoop cap parts (b @ part) []) \<le> 1 + length (chunkLoop cap parts part [])"
        by (rule IH1)
      with nb True show ?thesis by (simp add: chunkLoop_count_Cons del: chunkLoop.simps)
    next
      case False
      have "length (chunkLoop cap parts (b @ part) []) \<le>
              1 + length (chunkLoop cap parts (b' @ part) [])"
        by (rule IH1)
      with nb False show ?thesis by (simp add: chunkLoop_count_Cons del: chunkLoop.simps)
    qed
  qed
  have two: "length (chunkLoop cap (part # parts) b []) \<le>
               length (chunkLoop cap (part # parts) b' [])"
    if le: "length b \<le> length b'"
  proof (cases "length b' + length part > cap")
    case True
    note fb' = this
    show ?thesis
    proof (cases "length b + length part > cap")
      case True
      with fb' le show ?thesis by (auto simp: chunkLoop_count_Cons simp del: chunkLoop.simps)
    next
      case False
      show ?thesis
      proof (cases "b = []")
        case True
        with False fb' show ?thesis by (simp add: chunkLoop_count_Cons del: chunkLoop.simps)
      next
        case bne: False
        with le have "b' \<noteq> []" by auto
        moreover
        have "length (chunkLoop cap parts (b @ part) []) \<le>
                1 + length (chunkLoop cap parts part [])"
          by (rule IH1)
        ultimately show ?thesis
          using False fb' by (simp add: chunkLoop_count_Cons del: chunkLoop.simps)
      qed
    qed
  next
    case False
    with le have nb: "\<not> length b + length part > cap" by simp
    have "length (chunkLoop cap parts (b @ part) []) \<le>
            length (chunkLoop cap parts (b' @ part) [])"
      by (rule IH2) (simp add: le)
    with nb False show ?thesis by (simp add: chunkLoop_count_Cons del: chunkLoop.simps)
  qed
  from one two show ?case by blast
qed

text \<open>A smaller cap and a longer buffer never give fewer batches.\<close>

lemma chunkLoop_count_mono:
  "length (chunkLoop c1 parts b1 []) \<le> length (chunkLoop c2 parts b2 [])"
  if "c2 \<le> c1" "length b1 \<le> length b2"
  using that(2)
proof (induction parts arbitrary: b1 b2)
  case Nil
  then show ?case by auto
next
  case (Cons part parts)
  show ?case
  proof (cases "length b2 + length part > c2")
    case True
    note f2 = this
    show ?thesis
    proof (cases "length b1 + length part > c1")
      case True
      have "length (chunkLoop c1 parts part []) \<le> length (chunkLoop c2 parts part [])"
        by (rule Cons.IH) simp
      with True f2 Cons.prems show ?thesis by (auto simp: chunkLoop_count_Cons simp del: chunkLoop.simps)
    next
      case False
      have step: "length (chunkLoop c1 parts part []) \<le> length (chunkLoop c2 parts part [])"
        by (rule Cons.IH) simp
      show ?thesis
      proof (cases "b1 = []")
        case True
        with False f2 step show ?thesis by (simp add: chunkLoop_count_Cons del: chunkLoop.simps)
      next
        case bne: False
        with Cons.prems have "b2 \<noteq> []" by auto
        moreover
        have "length (chunkLoop c1 parts (b1 @ part) []) \<le>
                1 + length (chunkLoop c1 parts part [])"
          by (rule chunkLoop_count_buffer [THEN conjunct1])
        ultimately show ?thesis
          using False f2 step by (simp add: chunkLoop_count_Cons del: chunkLoop.simps)
      qed
    qed
  next
    case False
    with Cons.prems that(1) have n1: "\<not> length b1 + length part > c1" by simp
    have "length (chunkLoop c1 parts (b1 @ part) []) \<le>
            length (chunkLoop c2 parts (b2 @ part) [])"
      by (rule Cons.IH) (simp add: Cons.prems)
    with n1 False show ?thesis by (simp add: chunkLoop_count_Cons del: chunkLoop.simps)
  qed
qed

lemma prChunks_append: "prChunks (xs @ ys) = prChunks xs @ prChunks ys"
  by (simp add: prChunks_def List.map_filter_def)

lemma fileParts_append:
  "fileParts readFile rel (xs @ ys) = fileParts readFile rel xs @ fileParts readFile rel ys"
  by (simp add: fileParts_def List.map_filter_def)

lemma batchPRFilesCap_partitions:
  "partitions cap (prChunks files) (batchPRFilesCap cap files) (groupLoop cap (prChunks files) [] [])"
  unfolding batchPRFilesCap_def batchPRLoop_chunkLoop
  by (rule chunkLoop_partitions) (rule prChunks_nonempty)

lemma batchesFromFilesCap_partitions:
  "partitions cap (fileParts readFile rel paths) (batchesFromFilesCap readFile rel cap paths)
     (groupLoop cap (fileParts readFile rel paths) [] [])"
  unfolding batchesFromFilesCap_def batchesLoop_chunkLoop
  by (rule chunkLoop_partitions) (rule fileParts_nonempty)

lemma exampleFiles_chunks:
  "prChunks exampleFiles =
     [makeUnifiedChunk ''a.js'' ''+x'', makeUnifiedChunk ''c.js'' ''+a long line of text'']"
  by (simp add: exampleFiles_def prChunks_def prChunk_def List.map_filter_simps)

lemma exampleFiles_batches_30:
  "batchPRFilesCap 30 exampleFiles =
     [makeUnifiedChunk ''a.js'' ''+x'', makeUnifiedChunk ''c.js'' ''+a long line of text'']"
  by (simp add: batchPRFilesCap_def exampleFiles_def makeUnifiedChunk_def)

lemma exampleFiles_batches_100:
  "batchPRFilesCap 100 exampleFiles =
     [makeUnifiedChunk ''a.js'' ''+x'' @ makeUnifiedChunk ''c.js'' ''+a long line of text'']"
  by (simp add: batchPRFilesCap_def exampleFiles_def makeUnifiedChunk_def)

lemma exampleDisk_slices:
  "sliceFileContent exampleDisk id ''x.js'' =
     Some ([newline] @ ''// ===== FILE: x.js ====='' @ [newline] @ ''let x = 1;'')"
  "sliceFileContent exampleDisk id ''blank.js'' = None"
  "sliceFileContent exampleDisk id ''gone.js'' = None"
  "sliceFileContent exampleDisk id ''y.js'' =
     Some ([newline] @ ''// ===== FILE: y.js ====='' @ [newline] @ ''let y = 2;'')"
  by (simp_all add: sliceFileContent_def exampleDisk_def trim_def isSpace_def MAX_FILE_CHARS_def)

lemma exampleDisk_batches_40:
  "batchesFromFilesCap exampleDisk id 40 [''x.js'', ''blank.js'', ''gone.js'', ''y.js''] =
     [[newline] @ ''// ===== FILE: x.js ====='' @ [newline] @ ''let x = 1;'',
      [newline] @ ''// ===== FILE: y.js ====='' @ [newline] @ ''let y = 2;'']"
  by (simp add: batchesFromFilesCap_def exampleDisk_slices)

lemma exampleDisk_batches_80:
  "batchesFromFilesCap exampleDisk id 80 [''x.js'', ''blank.js'', ''gone.js'', ''y.js''] =
     [[newline] @ ''// ===== FILE: x.js ====='' @ [newline] @ ''let x = 1;'' @
      [newline] @ ''// ===== FILE: y.js ====='' @ [newline] @ ''let y = 2;'']"
  by (simp add: batchesFromFilesCap_def exampleDisk_slices)

text \<open>
  C2. For every list of units and every cap, in both modes: the batches are a
  partition of the formatted usable units into groups of whole units in input order,
  each batch the concatenation of its group, and every group is within the cap or is
  one unit alone; so the batches concatenate to the formatted units and the lengths add
  up. A file without a patch, and a file that cannot be read or is blank, changes
  nothing. The source's \<open>batchPRFiles\<close> and \<open>batchesFromFiles\<close> are the instances at
  their caps.
\<close>

theorem chunker_partitions_units:
  "(\<exists>groups. partitions cap (prChunks files) (batchPRFilesCap cap files) groups)
   \<and> concat (batchPRFilesCap cap files) = concat (prChunks files)
   \<and> sum_list (map length (batchPRFilesCap cap files)) = sum_list (map length (prChunks files))
   \<and> (patch f = None \<or> patch f = Some [] \<longrightarrow>
        batchPRFilesCap cap (pre @ f # post) = batchPRFilesCap cap (pre @ post))
   \<and> (\<exists>groups. partitions PR_MAX_BATCH_CHARS (prChunks files) (batchPRFiles files) groups)
   \<and> (\<exists>groups. partitions cap (fileParts readFile rel paths)
                  (batchesFromFilesCap readFile rel cap paths) groups)
   \<and> concat (batchesFromFilesCap readFile rel cap paths) = concat (fileParts readFile rel paths)
   \<and> sum_list (map length (batchesFromFilesCap readFile rel cap paths)) =
       sum_list (map length (fileParts readFile rel paths))
   \<and> (readFile p = None \<or> trim (the (readFile p)) = [] \<longrightarrow>
        batchesFromFilesCap readFile rel cap (before @ p # after) =
        batchesFromFilesCap readFile rel cap (before @ after))
   \<and> (\<exists>groups. partitions MAX_BATCH_CHARS (fileParts readFile rel paths)
                  (batchesFromFiles readFile rel paths) groups)"
proof (intro conjI impI)
  note pr = batchPRFilesCap_partitions [of cap files]
  note fr = batchesFromFilesCap_partitions [of cap readFile rel paths]
  show "\<exists>groups. partitions cap (prChunks files) (batchPRFilesCap cap files) groups"
    using pr by blast
  show "concat (batchPRFilesCap cap files) = concat (prChunks files)"
    using pr by (rule partitions_concat)
  show "sum_list (map length (batchPRFilesCap cap files)) = sum_list (map length (prChunks files))"
    using pr by (rule partitions_lengths)
  show "\<exists>groups. partitions PR_MAX_BATCH_CHARS (prChunks files) (batchPRFiles files) groups"
    unfolding batchPRFiles_def using batchPRFilesCap_partitions by blast
  show "\<exists>groups. partitions cap (fileParts readFile rel paths)
          (batchesFromFilesCap readFile rel cap paths) groups"
    using fr by blast
  show "concat (batchesFromFilesCap readFile rel cap paths) = concat (fileParts readFile rel paths)"
    using fr by (rule partitions_concat)
  show "sum_list (map length (batchesFromFilesCap readFile rel cap paths)) =
          sum_list (map length (fileParts readFile rel paths))"
    using fr by (rule partitions_lengths)
  show "\<exists>groups. partitions MAX_BATCH_CHARS (fileParts readFile rel paths)
          (batchesFromFiles readFile rel paths) groups"
    unfolding batchesFromFiles_def using batchesFromFilesCap_partitions by blast
next
  assume "patch f = None \<or> patch f = Some []"
  then have "prChunk f = None"
    by (auto simp: prChunk_def)
  then have "prChunks (pre @ f # post) = prChunks (pre @ post)"
    by (simp add: prChunks_append) (simp add: prChunks_def)
  then show "batchPRFilesCap cap (pre @ f # post) = batchPRFilesCap cap (pre @ post)"
    by (simp add: batchPRFilesCap_def batchPRLoop_chunkLoop)
next
  assume "readFile p = None \<or> trim (the (readFile p)) = []"
  then have "sliceFileContent readFile rel p = None"
    by (auto simp: sliceFileContent_def split: option.splits)
  then have "fileParts readFile rel (before @ p # after) = fileParts readFile rel (before @ after)"
    by (simp add: fileParts_append) (simp add: fileParts_def)
  then show "batchesFromFilesCap readFile rel cap (before @ p # after) =
               batchesFromFilesCap readFile rel cap (before @ after)"
    by (simp add: batchesFromFilesCap_def batchesLoop_chunkLoop)
qed

theorem chunker_partitions_units_witness:
  "batchPRFilesCap 30 exampleFiles =
     [makeUnifiedChunk ''a.js'' ''+x'', makeUnifiedChunk ''c.js'' ''+a long line of text'']
   \<and> length (makeUnifiedChunk ''a.js'' ''+x'') = 26
   \<and> length (makeUnifiedChunk ''c.js'' ''+a long line of text'') = 44
   \<and> concat (batchPRFilesCap 30 exampleFiles) = concat (prChunks exampleFiles)
   \<and> sum_list (map length (batchPRFilesCap 30 exampleFiles)) = 70
   \<and> patch \<lparr>filename = ''b.png'', patch = None\<rparr> = None
   \<and> batchPRFilesCap 30 exampleFiles =
       batchPRFilesCap 30 ([hd exampleFiles] @ [last exampleFiles])
   \<and> exampleDisk ''gone.js'' = None
   \<and> batchesFromFilesCap exampleDisk id 30 ([''x.js''] @ ''gone.js'' # [''y.js'']) =
       batchesFromFilesCap exampleDisk id 30 ([''x.js''] @ [''y.js''])"
proof -
  note w = chunker_partitions_units [of 30 exampleFiles "\<lparr>filename = ''b.png'', patch = None\<rparr>"
      "[hd exampleFiles]" "[last exampleFiles]" exampleDisk id "[]" "''gone.js''"
      "[''x.js'']" "[''y.js'']"]
  have gone: "exampleDisk ''gone.js'' = None"
    by (simp add: exampleDisk_def)
  have split: "exampleFiles =
      [hd exampleFiles] @ \<lparr>filename = ''b.png'', patch = None\<rparr> # [last exampleFiles]"
    by (simp add: exampleFiles_def)
  from w have c: "concat (batchPRFilesCap 30 exampleFiles) = concat (prChunks exampleFiles)"
    by (elim conjE)
  from w have s: "sum_list (map length (batchPRFilesCap 30 exampleFiles)) =
      sum_list (map length (prChunks exampleFiles))"
    by (elim conjE)
  have s70: "sum_list (map length (prChunks exampleFiles)) = 70"
    by (simp add: exampleFiles_chunks makeUnifiedChunk_def)
  from w have "batchPRFilesCap 30
        ([hd exampleFiles] @ \<lparr>filename = ''b.png'', patch = None\<rparr> # [last exampleFiles]) =
      batchPRFilesCap 30 ([hd exampleFiles] @ [last exampleFiles])"
    by (elim conjE) simp
  with split have skip:
    "batchPRFilesCap 30 exampleFiles = batchPRFilesCap 30 ([hd exampleFiles] @ [last exampleFiles])"
    by simp
  from w gone have skipf:
    "batchesFromFilesCap exampleDisk id 30 ([''x.js''] @ ''gone.js'' # [''y.js'']) =
       batchesFromFilesCap exampleDisk id 30 ([''x.js''] @ [''y.js''])"
    by (elim conjE) simp
  have l1: "length (makeUnifiedChunk ''a.js'' ''+x'') = 26"
    and l2: "length (makeUnifiedChunk ''c.js'' ''+a long line of text'') = 44"
    by (simp_all add: makeUnifiedChunk_def)
  from exampleFiles_batches_30 l1 l2 c s s70 skip gone skipf show ?thesis
    by simp
qed

text \<open>
  C9. For every list of units and caps \<open>c2 \<le> c1\<close>, in both modes, the smaller cap
  gives at least as many batches as the larger one.
\<close>

theorem chunker_count_antitone:
  assumes "0 < c2" and "c2 \<le> c1"
  shows "length (batchPRFilesCap c1 files) \<le> length (batchPRFilesCap c2 files)
    \<and> length (batchesFromFilesCap readFile rel c1 paths) \<le>
        length (batchesFromFilesCap readFile rel c2 paths)"
proof
  show "length (batchPRFilesCap c1 files) \<le> length (batchPRFilesCap c2 files)"
    unfolding batchPRFilesCap_def batchPRLoop_chunkLoop
    using assms(2) by (rule chunkLoop_count_mono) simp
  show "length (batchesFromFilesCap readFile rel c1 paths) \<le>
          length (batchesFromFilesCap readFile rel c2 paths)"
    unfolding batchesFromFilesCap_def batchesLoop_chunkLoop
    using assms(2) by (rule chunkLoop_count_mono) simp
qed

theorem chunker_count_antitone_witness:
  "(0::nat) < 30 \<and> (30::nat) \<le> 100
   \<and> length (batchPRFilesCap 100 exampleFiles) = 1
   \<and> length (batchPRFilesCap 30 exampleFiles) = 2
   \<and> length (batchPRFilesCap 100 exampleFiles) \<le> length (batchPRFilesCap 30 exampleFiles)
   \<and> length (batchesFromFilesCap exampleDisk id 100 [''x.js'', ''blank.js'', ''gone.js'', ''y.js''])
       \<le> length (batchesFromFilesCap exampleDisk id 30 [''x.js'', ''blank.js'', ''gone.js'', ''y.js''])"
proof -
  have h1: "(0::nat) < 30" and h2: "(30::nat) \<le> 100"
    by simp_all
  note w = chunker_count_antitone [OF h1 h2, of exampleFiles exampleDisk id
      "[''x.js'', ''blank.js'', ''gone.js'', ''y.js'']"]
  have "length (batchPRFilesCap 100 exampleFiles) = 1"
    by (simp add: exampleFiles_batches_100)
  moreover have "length (batchPRFilesCap 30 exampleFiles) = 2"
    by (simp add: exampleFiles_batches_30)
  ultimately show ?thesis
    using w h1 h2 by (intro conjI) (elim conjE, assumption)+
qed

section \<open>Properties of the Response Parser\<close>

lemma firstParsed_fails: "list_all (fails parse) cs \<Longrightarrow> firstParsed parse cs = None"
  by (induction parse cs rule: firstParsed.induct) (auto simp: fails_def)

lemma extract_candidates:
  "t \<noteq> [] \<Longrightarrow> extractJsonFromText parse (Str t) = firstParsed parse (candidates t)"
  by (simp add: extractJsonFromText_def candidates_def split: parsed.splits option.splits)

lemma fence_fencedText: "map_option trim (fence fencedText) = Some objectText"
  by code_simp

lemma fencedText_nonempty: "fencedText \<noteq> []"
  by (simp add: fencedText_def)

lemma objectText_nonempty: "objectText \<noteq> []"
  by (simp add: objectText_def)

lemma candidates_prose: "candidates ''no json here'' = [Some ''no json here'', None, None]"
  by code_simp

lemma braces_proseText: "braces proseText = Some objectText"
  by code_simp

lemma fence_proseText: "fence proseText = None"
  by code_simp

text \<open>
  C3. For every \<open>JSON.parse\<close> and every argument: an argument that is no string, and the
  empty string, give null; for any other text the result is the value of the first of
  the three candidates, in order, that parses, and null when every candidate fails.
  The function has a value in every case: no \<open>SyntaxError\<close> of \<open>JSON.parse\<close> leaves it.
  When \<open>JSON.parse\<close> returns a value for the object text, so does the function for it;
  when it throws on the fenced reply as a whole, the function returns the value of the
  object text inside the fence; when it throws on \<open>no json here\<close>, the function
  returns null.
\<close>

theorem extractJsonFromText_attempts:
  "extractJsonFromText parse NotAString = None
   \<and> extractJsonFromText parse (Str []) = None
   \<and> (t \<noteq> [] \<longrightarrow> extractJsonFromText parse (Str t) = firstParsed parse (candidates t))
   \<and> (list_all (fails parse) (candidates t) \<longrightarrow> extractJsonFromText parse (Str t) = None)
   \<and> (parse objectText = Parsed v \<longrightarrow> extractJsonFromText parse (Str objectText) = v)
   \<and> (parse fencedText = SyntaxError \<and> parse objectText = Parsed v \<longrightarrow>
        extractJsonFromText parse (Str fencedText) = v)
   \<and> (parse ''no json here'' = SyntaxError \<longrightarrow>
        extractJsonFromText parse (Str ''no json here'') = None)"
proof (intro conjI impI)
  show "extractJsonFromText parse NotAString = None"
    by (simp add: extractJsonFromText_def)
  show "extractJsonFromText parse (Str []) = None"
    by (simp add: extractJsonFromText_def)
next
  assume "t \<noteq> []"
  then show "extractJsonFromText parse (Str t) = firstParsed parse (candidates t)"
    by (rule extract_candidates)
next
  assume "list_all (fails parse) (candidates t)"
  then have "firstParsed parse (candidates t) = None"
    by (rule firstParsed_fails)
  then show "extractJsonFromText parse (Str t) = None"
    by (cases "t = []") (simp_all add: extract_candidates, simp add: extractJsonFromText_def)
next
  assume "parse objectText = Parsed v"
  then show "extractJsonFromText parse (Str objectText) = v"
    by (simp add: extractJsonFromText_def objectText_nonempty)
next
  assume "parse fencedText = SyntaxError \<and> parse objectText = Parsed v"
  moreover from fence_fencedText obtain inner
    where "fence fencedText = Some inner" "trim inner = objectText"
    by auto
  ultimately show "extractJsonFromText parse (Str fencedText) = v"
    by (simp add: extractJsonFromText_def fencedText_nonempty)
next
  assume "parse ''no json here'' = SyntaxError"
  then show "extractJsonFromText parse (Str ''no json here'') = None"
    by (simp add: extract_candidates candidates_prose)
qed

theorem extractJsonFromText_attempts_witness:
  "exampleParse objectText = Parsed (Some ())
   \<and> exampleParse fencedText = SyntaxError
   \<and> exampleParse ''no json here'' = SyntaxError
   \<and> extractJsonFromText exampleParse (Str objectText) = Some ()
   \<and> extractJsonFromText exampleParse (Str fencedText) = Some ()
   \<and> extractJsonFromText exampleParse (Str ''no json here'') = None
   \<and> list_all (fails exampleParse) (candidates ''no json here'')
   \<and> proseText \<noteq> []
   \<and> candidates proseText = [Some proseText, None, Some objectText]
   \<and> extractJsonFromText exampleParse (Str proseText) = Some ()"
proof -
  have p1: "exampleParse objectText = Parsed (Some ())"
    by (simp add: exampleParse_def)
  have p2: "exampleParse fencedText = SyntaxError"
    by code_simp
  have p3: "exampleParse ''no json here'' = SyntaxError"
    by code_simp
  have p4: "list_all (fails exampleParse) (candidates ''no json here'')"
    by (simp add: candidates_prose fails_def p3)
  have p5: "proseText \<noteq> []"
    by (simp add: proseText_def)
  have p6: "candidates proseText = [Some proseText, None, Some objectText]"
    by (simp add: candidates_def braces_proseText fence_proseText)
  have p7: "exampleParse proseText = SyntaxError"
    by code_simp
  note w = extractJsonFromText_attempts [of exampleParse proseText "Some ()"]
  from w p1 have a: "extractJsonFromText exampleParse (Str objectText) = Some ()"
    by (elim conjE) simp
  from w p1 p2 have b: "extractJsonFromText exampleParse (Str fencedText) = Some ()"
    by (elim conjE) simp
  from w p3 have c: "extractJsonFromText exampleParse (Str ''no json here'') = None"
    by (elim conjE) simp
  from w p5 have "extractJsonFromText exampleParse (Str proseText) =
      firstParsed exampleParse (candidates proseText)"
    by (elim conjE) simp
  with p6 p7 p1 have d: "extractJsonFromText exampleParse (Str proseText) = Some ()"
    by simp
  from p1 p2 p3 a b c p4 p5 p6 d show ?thesis
    by (intro conjI)
qed

section \<open>Properties of the Finding Merger\<close>

lemma identity_key: "identity f = identity g \<Longrightarrow> findingKey f = findingKey g"
  by (simp add: identity_def findingKey_def)

lemma mergeLoop_acc: "mergeLoop fs seen merged = merged @ mergeLoop fs seen []"
proof (induction fs arbitrary: seen merged)
  case Nil
  show ?case by simp
next
  case (Cons f fs)
  show ?case
    using Cons.IH [of "insert (findingKey f) seen" "merged @ [f]"]
      Cons.IH [of "insert (findingKey f) seen" "[f]"] Cons.IH [of seen merged]
    by simp
qed

lemma mergeLoop_Cons:
  "mergeLoop (f # fs) seen [] =
     (if findingKey f \<in> seen then mergeLoop fs seen []
      else f # mergeLoop fs (insert (findingKey f) seen) [])"
  using mergeLoop_acc [of fs "insert (findingKey f) seen" "[f]"] by simp

text \<open>
  The loop keeps exactly the elements whose key is neither seen before the loop nor
  carried by an earlier element.
\<close>

lemma mergeLoop_nths:
  "mergeLoop fs seen [] =
     nths fs {i. findingKey (fs ! i) \<notin> seen \<union> findingKey ` set (take i fs)}"
proof (induction fs arbitrary: seen)
  case Nil
  show ?case by simp
next
  case (Cons f fs)
  show ?case
  proof (cases "findingKey f \<in> seen")
    case True
    then have "{j. Suc j \<in> {i. findingKey ((f # fs) ! i) \<notin> seen \<union> findingKey ` set (take i (f # fs))}} =
               {i. findingKey (fs ! i) \<notin> seen \<union> findingKey ` set (take i fs)}"
      by auto
    with True show ?thesis
      by (simp add: mergeLoop_Cons nths_Cons Cons.IH del: mergeLoop.simps)
  next
    case False
    then have "{j. Suc j \<in> {i. findingKey ((f # fs) ! i) \<notin> seen \<union> findingKey ` set (take i (f # fs))}} =
               {i. findingKey (fs ! i) \<notin> insert (findingKey f) seen \<union> findingKey ` set (take i fs)}"
      by auto
    with False show ?thesis
      by (simp add: mergeLoop_Cons nths_Cons Cons.IH del: mergeLoop.simps)
  qed
qed

lemma mergeLoop_keys:
  "findingKey ` set (mergeLoop fs seen []) = findingKey ` set fs - seen"
proof (induction fs arbitrary: seen)
  case Nil
  show ?case by simp
next
  case (Cons f fs)
  show ?case
    by (auto simp: mergeLoop_Cons Cons.IH simp del: mergeLoop.simps)
qed

lemma mergeLoop_distinct: "distinct (map findingKey (mergeLoop fs seen []))"
proof (induction fs arbitrary: seen)
  case Nil
  show ?case by simp
next
  case (Cons f fs)
  have "findingKey f \<notin> findingKey ` set (mergeLoop fs (insert (findingKey f) seen) [])"
    by (simp add: mergeLoop_keys)
  then show ?case
    by (simp add: mergeLoop_Cons Cons.IH del: mergeLoop.simps)
qed

text \<open>Merging a concatenation: the second list is merged against the keys of the first.\<close>

lemma mergeLoop_append:
  "mergeLoop (xs @ ys) seen [] =
     mergeLoop xs seen [] @ mergeLoop ys (seen \<union> findingKey ` set xs) []"
proof (induction xs arbitrary: seen)
  case Nil
  show ?case by simp
next
  case (Cons x xs)
  have "insert (findingKey x) (seen \<union> findingKey ` set xs) =
        insert (findingKey x) seen \<union> findingKey ` set xs"
    by auto
  moreover have "findingKey x \<in> seen \<Longrightarrow>
      insert (findingKey x) (seen \<union> findingKey ` set xs) = seen \<union> findingKey ` set xs"
    by auto
  ultimately show ?case
    using Cons.IH [of seen] Cons.IH [of "insert (findingKey x) seen"]
    by (simp add: mergeLoop_Cons del: mergeLoop.simps)
qed

lemma mergeLoop_subset: "set (mergeLoop fs seen []) \<subseteq> set fs"
proof (induction fs arbitrary: seen)
  case Nil
  show ?case by simp
next
  case (Cons f fs)
  show ?case
    using Cons.IH [of seen] Cons.IH [of "insert (findingKey f) seen"]
    by (auto simp: mergeLoop_Cons simp del: mergeLoop.simps)
qed

lemma mergeLoop_find:
  "find (\<lambda>g. findingKey g = k) (mergeLoop fs seen []) =
     (if k \<in> seen then None else find (\<lambda>g. findingKey g = k) fs)"
proof (induction fs arbitrary: seen)
  case Nil
  show ?case by simp
next
  case (Cons f fs)
  show ?case
    by (auto simp: mergeLoop_Cons Cons.IH simp del: mergeLoop.simps)
qed

text \<open>
  C7. For every list of findings: the merged list is the input restricted to the
  indices whose key occurs at no earlier index, so the first occurrence of every key is
  kept as it is, at its place in the input order, and every later one is dropped; for
  every key the merged list holds the same first element as the input; no two merged
  elements share a key, nor an identity (file, line, severity, comment prefix); and two
  findings with one identity, such as two that differ in \<open>suggestion\<close> only, merge to
  the first of them.
\<close>

theorem mergeFindings_first_occurrences:
  "mergeFindings fs = nths fs {i. findingKey (fs ! i) \<notin> findingKey ` set (take i fs)}
   \<and> find (\<lambda>g. findingKey g = k) (mergeFindings fs) = find (\<lambda>g. findingKey g = k) fs
   \<and> distinct (map findingKey (mergeFindings fs))
   \<and> distinct (map identity (mergeFindings fs))
   \<and> (identity g = identity f \<longrightarrow> mergeFindings [f, g] = [f])
   \<and> mergeFindings [f, f\<lparr>suggestion := s\<rparr>] = [f]"
proof (intro conjI impI)
  show "mergeFindings fs = nths fs {i. findingKey (fs ! i) \<notin> findingKey ` set (take i fs)}"
    by (simp add: mergeFindings_def mergeLoop_nths)
  show "find (\<lambda>g. findingKey g = k) (mergeFindings fs) = find (\<lambda>g. findingKey g = k) fs"
    by (simp add: mergeFindings_def mergeLoop_find)
  show d: "distinct (map findingKey (mergeFindings fs))"
    by (simp add: mergeFindings_def mergeLoop_distinct)
  have "inj_on identity (set (mergeFindings fs))"
  proof (rule inj_onI)
    fix x y
    assume x: "x \<in> set (mergeFindings fs)" and y: "y \<in> set (mergeFindings fs)"
      and "identity x = identity y"
    then have "findingKey x = findingKey y"
      by (intro identity_key)
    with d x y show "x = y"
      by (auto simp: distinct_map inj_on_def)
  qed
  moreover from d have "distinct (mergeFindings fs)"
    by (simp add: distinct_map)
  ultimately show "distinct (map identity (mergeFindings fs))"
    by (simp add: distinct_map)
  show "mergeFindings [f, f\<lparr>suggestion := s\<rparr>] = [f]"
    by (simp add: mergeFindings_def findingKey_def commentText_def)
next
  assume "identity g = identity f"
  then have "findingKey g = findingKey f"
    by (rule identity_key)
  then show "mergeFindings [f, g] = [f]"
    by (simp add: mergeFindings_def)
qed

theorem mergeFindings_first_occurrences_witness:
  "identity (dupFinding\<lparr>suggestion := Some ''use let''\<rparr>) = identity dupFinding
   \<and> mergeFindings [dupFinding, dupFinding\<lparr>suggestion := Some ''use let''\<rparr>] = [dupFinding]
   \<and> mergeFindings [dupFinding, dupFinding] = [dupFinding]
   \<and> findingKey dupFinding = ''a.js|1|high|dup''
   \<and> find (\<lambda>g. findingKey g = ''a.js|1|high|dup'')
        (mergeFindings [dupFinding\<lparr>suggestion := Some ''use let''\<rparr>, dupFinding]) =
      Some (dupFinding\<lparr>suggestion := Some ''use let''\<rparr>)"
proof -
  have h: "identity (dupFinding\<lparr>suggestion := Some ''use let''\<rparr>) = identity dupFinding"
    by (simp add: identity_def commentText_def)
  have k: "findingKey dupFinding = ''a.js|1|high|dup''"
    by (simp add: findingKey_def dupFinding_def lineText_def commentText_def showNat.simps)
  then have k': "findingKey (dupFinding\<lparr>suggestion := Some ''use let''\<rparr>) = ''a.js|1|high|dup''"
    by (simp add: findingKey_def commentText_def)
  note w = mergeFindings_first_occurrences
    [of "[dupFinding\<lparr>suggestion := Some ''use let''\<rparr>, dupFinding]" "''a.js|1|high|dup''"
        "dupFinding\<lparr>suggestion := Some ''use let''\<rparr>" dupFinding "None"]
  from w h have a: "mergeFindings [dupFinding, dupFinding\<lparr>suggestion := Some ''use let''\<rparr>] = [dupFinding]"
    by (elim conjE) simp
  from w have "find (\<lambda>g. findingKey g = ''a.js|1|high|dup'')
        (mergeFindings [dupFinding\<lparr>suggestion := Some ''use let''\<rparr>, dupFinding]) =
      find (\<lambda>g. findingKey g = ''a.js|1|high|dup'')
        [dupFinding\<lparr>suggestion := Some ''use let''\<rparr>, dupFinding]"
    by (elim conjE)
  with k' have b: "find (\<lambda>g. findingKey g = ''a.js|1|high|dup'')
        (mergeFindings [dupFinding\<lparr>suggestion := Some ''use let''\<rparr>, dupFinding]) =
      Some (dupFinding\<lparr>suggestion := Some ''use let''\<rparr>)"
    by simp
  have c: "mergeFindings [dupFinding, dupFinding] = [dupFinding]"
    by (simp add: mergeFindings_def)
  from h a c k b show ?thesis
    by (intro conjI)
qed

section \<open>Properties of the Static Rule Scanner\<close>

lemma scanLoop_acc:
  "scanLoop rules name ls n findings = findings @ scanLoop rules name ls n []"
proof (induction ls arbitrary: n findings)
  case Nil
  show ?case by simp
next
  case (Cons L ls)
  show ?case
    using Cons.IH [of _ "findings @ lineFindings rules name n (drop 1 L)"]
      Cons.IH [of _ "lineFindings rules name n (drop 1 L)"] Cons.IH [of _ findings]
    by (simp split: option.splits)
qed

lemma scanLoop_scan:
  "scanLoop rules name ls n [] =
     concat (map (\<lambda>(L, n). if isAdded L then lineFindings rules name n (drop 1 L) else [])
       (zip ls (scanLineNumbers n ls)))"
proof (induction ls arbitrary: n)
  case Nil
  show ?case by simp
next
  case (Cons L ls)
  show ?case
  proof (cases "scanHeader L")
    case (Some d)
    then show ?thesis
      by (simp add: Cons.IH isAdded_def scanAdvance_def)
  next
    case None
    then show ?thesis
      using scanLoop_acc [of rules name ls "Suc n" "lineFindings rules name n (drop 1 L)"]
      by (auto simp: Cons.IH isAdded_def scanAdvance_def dest: startsWith_plus_minus)
  qed
qed

lemma startsWith_plus_no_scanHeader: "startsWith L ''+'' \<Longrightarrow> scanHeader L = None"
  by (cases L) (auto simp: startsWith_def scanHeader_def expect_def)

lemma scan_no_added:
  "concat (map (\<lambda>(L, n). if isAdded L then lineFindings rules name n (drop 1 L) else [])
     (zip ls ns)) = []"
  if "list_all (\<lambda>L. \<not> startsWith L ''+'') ls"
  using that
proof (induction ls arbitrary: ns)
  case Nil
  show ?case by simp
next
  case (Cons L ls)
  then show ?case
    by (cases ns) (auto simp: isAdded_def)
qed

lemma length_scanLineNumbers: "length (scanLineNumbers n ls) = length ls"
  by (induction ls arbitrary: n) auto

lemma matchesSomewhere_append:
  "matchesSomewhere m prev (pre @ s)"
  if "m (if pre = [] then prev else Some (last pre)) s"
  using that
proof (induction pre arbitrary: prev)
  case Nil
  then show ?case by (cases s) auto
next
  case (Cons c pre)
  then show ?case by (cases "pre = []") auto
qed

lemma reEval_call: "reEval prev (''eval('' @ post)" if "\<not> wordBefore prev"
  using that
  by (simp add: reEval_def boundary_def wordAfter_def isWordChar_def expect_def startsWith_def
        isSpace_def)

lemma test_reEval:
  "test reEval (pre @ ''eval('' @ post)" if "pre = [] \<or> \<not> isWordChar (last pre)"
  unfolding test_def
proof (rule matchesSomewhere_append)
  from that have "\<not> wordBefore (if pre = [] then None else Some (last pre))"
    by (auto simp: wordBefore_def)
  then show "reEval (if pre = [] then None else Some (last pre)) (''eval('' @ post)"
    by (rule reEval_call)
qed

lemma noEval_in_STATIC_RULES:
  "Rule ''no-eval'' reEval ''high'' ''Avoid eval()'' \<in> set STATIC_RULES"
  by (simp add: STATIC_RULES_def)

lemma noEvalFinding_rule:
  "noEvalFinding name n = ruleFinding name n (Rule ''no-eval'' reEval ''high'' ''Avoid eval()'')"
  by (simp add: noEvalFinding_def ruleFinding_def)

lemma scan_finds_eval:
  assumes i: "i < length (splitLines diffText)"
    and added: "startsWith (splitLines diffText ! i) ''+''"
    and code: "drop 1 (splitLines diffText ! i) = pre @ ''eval('' @ post"
    and pre: "pre = [] \<or> \<not> isWordChar (last pre)"
  shows "noEvalFinding name (scanLineNumbers 0 (splitLines diffText) ! i)
           \<in> set (scan STATIC_RULES name diffText)"
proof -
  let ?ls = "splitLines diffText"
  let ?ns = "scanLineNumbers 0 ?ls"
  from i have "(?ls ! i, ?ns ! i) \<in> set (zip ?ls ?ns)"
    by (auto simp: set_zip length_scanLineNumbers)
  moreover from added have "isAdded (?ls ! i)"
    by (simp add: isAdded_def startsWith_plus_no_scanHeader)
  moreover from pre have "test reEval (pre @ ''eval('' @ post)"
    by (rule test_reEval)
  with code have "test reEval (drop 1 (?ls ! i))"
    by (simp only:)
  then have "noEvalFinding name (?ns ! i) \<in>
      set (lineFindings STATIC_RULES name (?ns ! i) (drop 1 (?ls ! i)))"
    using noEval_in_STATIC_RULES
    by (auto simp: lineFindings_def noEvalFinding_rule intro!: image_eqI)
  ultimately show ?thesis
    unfolding scan_def by (auto intro!: bexI [of _ "(?ls ! i, ?ns ! i)"])
qed

lemma addsEval_findings: "runStaticChecksOnPatch ''f.js'' addsEval = [noEvalFinding ''f.js'' 2]"
  by code_simp

lemma removesEval_findings: "runStaticChecksOnPatch ''f.js'' removesEval = []"
  by code_simp

lemma addsEvalMd5_findings:
  "runStaticChecksOnPatch ''f.js'' addsEvalMd5 =
     [noEvalFinding ''f.js'' 8,
      \<lparr>file = ''f.js'', line = Some 8, severity = ''medium'',
       comment = Some ''Weak cryptography detected (rule: weak-crypto)'', suggestion = None\<rparr>]"
  by code_simp

text \<open>
  C6, against the claim as stated: an added line can contain \<open>eval(\<close> and give no
  finding, since the rule's expression asks for a word boundary before \<open>eval\<close>.
\<close>

theorem scanner_eval_counterexample:
  "splitLines addsRetrieval = [''@@ -1,0 +1,1 @@'', ''+retrieval(x)'']
   \<and> includesStr ''+retrieval(x)'' ''eval(''
   \<and> runStaticChecksOnPatch ''f.js'' addsRetrieval = []"
  by code_simp

text \<open>
  C6, amended. For every patch and every list of rules, the findings are exactly those
  of the added lines, in order: for each added line, one finding for each rule whose
  expression matches the line's code after the \<open>+\<close>, at the running new-file line
  number, which each hunk header sets anew. A patch without added lines gives no
  finding, so one that only removes \<open>eval(\<close> gives none. An added line whose code
  contains \<open>eval(\<close> not directly after a letter, digit or underscore gives the
  high-severity finding of the rule \<open>no-eval\<close> at its new-file number. A line that
  matches two rules gives both findings.
\<close>

theorem scanner_added_lines:
  "runStaticChecksWith rules name diffText = scan rules name diffText
   \<and> runStaticChecksOnPatch name diffText = scan STATIC_RULES name diffText
   \<and> length (lineFindings rules name n code) = length (filter (\<lambda>r. test (ruleRe r) code) rules)
   \<and> (list_all (\<lambda>L. \<not> startsWith L ''+'') (splitLines diffText) \<longrightarrow>
        runStaticChecksWith rules name diffText = [])
   \<and> (i < length (splitLines diffText) \<and> startsWith (splitLines diffText ! i) ''+'' \<and>
        drop 1 (splitLines diffText ! i) = pre @ ''eval('' @ post \<and>
        (pre = [] \<or> \<not> isWordChar (last pre)) \<longrightarrow>
        noEvalFinding name (scanLineNumbers 0 (splitLines diffText) ! i)
          \<in> set (runStaticChecksOnPatch name diffText))
   \<and> runStaticChecksOnPatch ''f.js'' addsEval = [noEvalFinding ''f.js'' 2]
   \<and> runStaticChecksOnPatch ''f.js'' removesEval = []
   \<and> map severity (runStaticChecksOnPatch ''f.js'' addsEvalMd5) = [''high'', ''medium'']"
proof (intro conjI impI)
  show eq: "runStaticChecksWith rules name diffText = scan rules name diffText" for rules
    by (simp add: runStaticChecksWith_def scan_def scanLoop_scan)
  then show eq': "runStaticChecksOnPatch name diffText = scan STATIC_RULES name diffText"
    by (simp add: runStaticChecksOnPatch_def)
  show "length (lineFindings rules name n code) =
          length (filter (\<lambda>r. test (ruleRe r) code) rules)"
    by (simp add: lineFindings_def)
  show "runStaticChecksOnPatch ''f.js'' addsEval = [noEvalFinding ''f.js'' 2]"
    by (rule addsEval_findings)
  show "runStaticChecksOnPatch ''f.js'' removesEval = []"
    by (rule removesEval_findings)
  show "map severity (runStaticChecksOnPatch ''f.js'' addsEvalMd5) = [''high'', ''medium'']"
    by (simp add: addsEvalMd5_findings noEvalFinding_def)
  {
    assume "list_all (\<lambda>L. \<not> startsWith L ''+'') (splitLines diffText)"
    then show "runStaticChecksWith rules name diffText = []"
      by (simp add: eq scan_def scan_no_added)
  }
  {
    assume "i < length (splitLines diffText) \<and> startsWith (splitLines diffText ! i) ''+'' \<and>
        drop 1 (splitLines diffText ! i) = pre @ ''eval('' @ post \<and>
        (pre = [] \<or> \<not> isWordChar (last pre))"
    then show "noEvalFinding name (scanLineNumbers 0 (splitLines diffText) ! i)
          \<in> set (runStaticChecksOnPatch name diffText)"
      unfolding eq' by (intro scan_finds_eval [where pre = pre and post = post]) blast+
  }
qed

theorem scanner_added_lines_witness:
  "list_all (\<lambda>L. \<not> startsWith L ''+'') (splitLines removesEval)
   \<and> runStaticChecksWith STATIC_RULES ''f.js'' removesEval = []
   \<and> splitLines addsEval ! 2 = ''+eval(x)''
   \<and> scanLineNumbers 0 (splitLines addsEval) ! 2 = 2
   \<and> noEvalFinding ''f.js'' 2 \<in> set (runStaticChecksOnPatch ''f.js'' addsEval)"
proof -
  have h1: "list_all (\<lambda>L. \<not> startsWith L ''+'') (splitLines removesEval)"
    by code_simp
  have l: "splitLines addsEval ! 2 = ''+eval(x)''"
    by code_simp
  have n: "scanLineNumbers 0 (splitLines addsEval) ! 2 = 2"
    by code_simp
  have len: "2 < length (splitLines addsEval)"
    by code_simp
  note w1 = scanner_added_lines [of STATIC_RULES "''f.js''" removesEval 0 "[]" 0 "[]" "[]"]
  note w2 = scanner_added_lines [of STATIC_RULES "''f.js''" addsEval 0 "[]" 2 "[]" "''x)''"]
  from w1 h1 have a: "runStaticChecksWith STATIC_RULES ''f.js'' removesEval = []"
    by (elim conjE) simp
  have h2: "2 < length (splitLines addsEval) \<and> startsWith (splitLines addsEval ! 2) ''+'' \<and>
        drop 1 (splitLines addsEval ! 2) = [] @ ''eval('' @ ''x)'' \<and>
        (([]::string) = [] \<or> \<not> isWordChar (last []))"
    using len by (simp only: l) (simp add: startsWith_def)
  from w2 have "2 < length (splitLines addsEval) \<and> startsWith (splitLines addsEval ! 2) ''+'' \<and>
        drop 1 (splitLines addsEval ! 2) = [] @ ''eval('' @ ''x)'' \<and>
        (([]::string) = [] \<or> \<not> isWordChar (last [])) \<longrightarrow>
      noEvalFinding ''f.js'' (scanLineNumbers 0 (splitLines addsEval) ! 2)
          \<in> set (runStaticChecksOnPatch ''f.js'' addsEval)"
    by (elim conjE)
  from this h2 have "noEvalFinding ''f.js'' (scanLineNumbers 0 (splitLines addsEval) ! 2)
          \<in> set (runStaticChecksOnPatch ''f.js'' addsEval)"
    by (rule mp)
  with n have b: "noEvalFinding ''f.js'' 2 \<in> set (runStaticChecksOnPatch ''f.js'' addsEval)"
    by simp
  from h1 a l n b show ?thesis
    by (intro conjI)
qed

section \<open>Properties of the Redactor\<close>





lemma expect_Some: "expect p s = Some r \<Longrightarrow> s = p @ r"
  by (auto simp: expect_def startsWith_def split: if_splits) (metis append_take_drop_id)








lemma expect_char_in: "expect p s = Some r \<Longrightarrow> c \<in> set p \<Longrightarrow> c \<in> set s"
  by (auto dest: expect_Some)



















lemma list_all_suffix: "list_all P (pre @ suf) \<Longrightarrow> list_all P suf"
  by simp












section \<open>Properties of the Review Orchestrator\<close>

lemma batchLoop_findings:
  "batchLoop api fallback call i bs allFindings summaries = Some (fs, sums) \<Longrightarrow>
     fs = allFindings @ modelFindings api fallback call i bs"
proof (induction bs arbitrary: i allFindings summaries)
  case Nil
  then show ?case by simp
next
  case (Cons b bs)
  show ?case
  proof (cases "call i b")
    case (CallError msg)
    with Cons.prems have "batchLoop api fallback call (i + 1) bs allFindings summaries = Some (fs, sums)"
      by (simp split: if_splits)
    from Cons.IH [OF this] CallError show ?thesis by simp
  next
    case (Content raw)
    with Cons.prems have "batchLoop api fallback call (i + 1) bs
        (allFindings @ replyFindings api fallback raw)
        (summaries @ replySummaries api fallback raw) = Some (fs, sums)"
      by simp
    from Cons.IH [OF this] Content show ?thesis by simp
  qed
qed



lemma find_append_first:
  "k \<in> f ` set xs \<Longrightarrow> find (\<lambda>g. f g = k) (xs @ ys) = find (\<lambda>g. f g = k) xs"
  by (induction xs) auto

lemma find_in_set: "find P xs = Some x \<Longrightarrow> x \<in> set xs"
  by (induction xs) (auto split: if_splits)

text \<open>
  C10. Whenever the pull request run reaches its review: the merged findings are the
  merge of the model's findings, in batch order, followed by the static findings; they
  are the merged model findings followed by static findings only, whose keys are the
  static keys no model finding has; and for the key of any model finding the merged
  list holds the first model finding with that key, whatever static finding shares it.
\<close>

theorem runPRReview_merge_order:
  assumes "runPRReview api call files = Reviewed summary merged"
  shows "merged =
           mergeFindings
             (modelFindings api prFallback call 0 (map redact (batchPRFiles files)) @
              staticFindingsOf files)
    \<and> (\<exists>rest. merged =
           mergeFindings (modelFindings api prFallback call 0 (map redact (batchPRFiles files)))
             @ rest
         \<and> set rest \<subseteq> set (staticFindingsOf files)
         \<and> findingKey ` set rest =
             findingKey ` set (staticFindingsOf files) -
             findingKey ` set (modelFindings api prFallback call 0
                                 (map redact (batchPRFiles files))))
    \<and> (\<forall>m \<in> set (modelFindings api prFallback call 0 (map redact (batchPRFiles files))).
          \<exists>g \<in> set (modelFindings api prFallback call 0 (map redact (batchPRFiles files))).
            find (\<lambda>g. findingKey g = findingKey m) merged = Some g
          \<and> find (\<lambda>g. findingKey g = findingKey m)
               (modelFindings api prFallback call 0 (map redact (batchPRFiles files))) = Some g)"
proof -
  let ?model = "modelFindings api prFallback call 0 (map redact (batchPRFiles files))"
  let ?static = "staticFindingsOf files"
  from assms obtain fs sums
    where loop: "batchLoop api prFallback call 0 (map redact (batchPRFiles files)) [] [] =
                   Some (fs, sums)"
      and merged: "merged = mergeFindings (fs @ ?static)"
    by (auto simp: runPRReview_def Let_def split: if_splits option.splits)
  from batchLoop_findings [OF loop] have fs: "fs = ?model"
    by simp
  with merged have a: "merged = mergeFindings (?model @ ?static)"
    by simp
  let ?rest = "mergeLoop ?static (findingKey ` set ?model) []"
  have split: "merged = mergeFindings ?model @ ?rest"
    by (simp add: a mergeFindings_def mergeLoop_append)
  have b: "\<exists>rest. merged = mergeFindings ?model @ rest \<and> set rest \<subseteq> set ?static \<and>
      findingKey ` set rest = findingKey ` set ?static - findingKey ` set ?model"
    using split mergeLoop_subset [of ?static] mergeLoop_keys [of ?static]
    by blast
  have c: "\<forall>m \<in> set ?model. \<exists>g \<in> set ?model.
      find (\<lambda>g. findingKey g = findingKey m) merged = Some g \<and>
      find (\<lambda>g. findingKey g = findingKey m) ?model = Some g"
  proof
    fix m
    assume m: "m \<in> set ?model"
    then have "find (\<lambda>g. findingKey g = findingKey m) ?model \<noteq> None"
      by (auto simp: find_None_iff)
    then obtain g where g: "find (\<lambda>g. findingKey g = findingKey m) ?model = Some g"
      by blast
    then have "g \<in> set ?model"
      by (rule find_in_set)
    moreover have "find (\<lambda>g. findingKey g = findingKey m) merged =
        find (\<lambda>g. findingKey g = findingKey m) (?model @ ?static)"
      by (simp add: a mergeFindings_def mergeLoop_find)
    with m have "find (\<lambda>g. findingKey g = findingKey m) merged =
        find (\<lambda>g. findingKey g = findingKey m) ?model"
      by (simp add: find_append_first)
    ultimately show "\<exists>g \<in> set ?model.
      find (\<lambda>g. findingKey g = findingKey m) merged = Some g \<and>
      find (\<lambda>g. findingKey g = findingKey m) ?model = Some g"
      using g by auto
  qed
  from a b c show ?thesis
    by blast
qed

lemma reply_example:
  "replyFindings exampleApi fb objectText = [modelEval, modelOther]"
  "replySummaries exampleApi fb objectText = [''ok'']"
  by (simp_all add: replyFindings_def replySummaries_def replyOut_def exampleApi_def
        extractJsonFromText_def exampleParse_def objectText_def)

lemma batchLoop_callOk:
  "batchLoop exampleApi fb callOk i bs fs sums =
     Some (fs @ concat (map (\<lambda>b. [modelEval, modelOther]) bs),
           sums @ concat (map (\<lambda>b. [''ok'']) bs))"
  by (induction bs arbitrary: i fs sums) (simp_all add: callOk_def reply_example)

lemma modelFindings_callOk:
  "modelFindings exampleApi fb callOk i bs = concat (map (\<lambda>b. [modelEval, modelOther]) bs)"
  by (induction bs arbitrary: i) (simp_all add: callOk_def reply_example)

lemma evalFiles_one_batch: "length (batchPRFiles evalFiles) = 1"
  by (simp add: batchPRFiles_def batchPRFilesCap_def PR_MAX_BATCH_CHARS_def evalFiles_def
        makeUnifiedChunk_def addsEval_def addsEvalMd5_def)

lemma summary_ok: "batchesSummary (Suc 0) [''ok''] = ''Batches: 1. ok''"
  by code_simp

lemma evalFiles_static:
  "staticFindingsOf evalFiles =
     [noEvalFinding ''f.js'' 2, noEvalFinding ''g.js'' 8, weakCryptoFinding ''g.js'' 8]"
  by code_simp

lemma evalFiles_merged:
  "mergeFindings ([modelEval, modelOther] @
      [noEvalFinding ''f.js'' 2, noEvalFinding ''g.js'' 8, weakCryptoFinding ''g.js'' 8]) =
     [modelEval, modelOther, noEvalFinding ''g.js'' 8, weakCryptoFinding ''g.js'' 8]"
  by code_simp

lemma evalFiles_run:
  "runPRReview exampleApi callOk evalFiles =
     Reviewed ''Batches: 1. ok''
       [modelEval, modelOther, noEvalFinding ''g.js'' 8, weakCryptoFinding ''g.js'' 8]"
proof -
  from evalFiles_one_batch obtain b where b: "batchPRFiles evalFiles = [b]"
    by (auto simp: length_Suc_conv)
  show ?thesis
    using evalFiles_merged
    by (simp add: runPRReview_def Let_def b batchLoop_callOk summary_ok evalFiles_static
          del: batchLoop.simps)
qed

lemma evalFiles_model:
  "modelFindings exampleApi prFallback callOk 0 (map redact (batchPRFiles evalFiles)) =
     [modelEval, modelOther]"
proof -
  from evalFiles_one_batch obtain b where b: "batchPRFiles evalFiles = [b]"
    by (auto simp: length_Suc_conv)
  show ?thesis
    by (simp add: b modelFindings_callOk del: modelFindings.simps)
qed

theorem runPRReview_merge_order_witness:
  "runPRReview exampleApi callOk evalFiles =
     Reviewed ''Batches: 1. ok''
       [modelEval, modelOther, noEvalFinding ''g.js'' 8, weakCryptoFinding ''g.js'' 8]
   \<and> staticFindingsOf evalFiles =
       [noEvalFinding ''f.js'' 2, noEvalFinding ''g.js'' 8, weakCryptoFinding ''g.js'' 8]
   \<and> findingKey modelEval = findingKey (noEvalFinding ''f.js'' 2)
   \<and> suggestion modelEval = Some ''use JSON.parse''
   \<and> [modelEval, modelOther, noEvalFinding ''g.js'' 8, weakCryptoFinding ''g.js'' 8] =
       mergeFindings ([modelEval, modelOther] @ staticFindingsOf evalFiles)"
proof -
  note w = runPRReview_merge_order [OF evalFiles_run]
  from w have "[modelEval, modelOther, noEvalFinding ''g.js'' 8, weakCryptoFinding ''g.js'' 8] =
      mergeFindings
        (modelFindings exampleApi prFallback callOk 0 (map redact (batchPRFiles evalFiles)) @
         staticFindingsOf evalFiles)"
    by (elim conjE)
  then have m: "[modelEval, modelOther, noEvalFinding ''g.js'' 8, weakCryptoFinding ''g.js'' 8] =
       mergeFindings ([modelEval, modelOther] @ staticFindingsOf evalFiles)"
    by (simp only: evalFiles_model)
  have k: "findingKey modelEval = findingKey (noEvalFinding ''f.js'' 2)"
    by (simp add: modelEval_def findingKey_def commentText_def)
  have s: "suggestion modelEval = Some ''use JSON.parse''"
    by (simp add: modelEval_def)
  from evalFiles_run evalFiles_static k s m show ?thesis
    by (intro conjI)
qed












end
